(* ===== verification/Goxo_Prelude.thy ===== *)
theory Goxo_Prelude
  imports Main "HOL-Library.Word" "HOL-Library.Multiset" "HOL-Library.Char_ord"
    "HOL-Library.List_Lexorder"
begin

text \<open>
  Shared vocabulary of the development: the machine integers and byte strings of the Go
  code, the error monad of its fallible functions, and the generic facts on lists, words
  and multisets that the component theories use.

  A Go \<open>string\<close> is a byte sequence, which is what \<^typ>\<open>string\<close> (a list of 8-bit
  \<^typ>\<open>char\<close>) is. A Go \<open>[]byte\<close> is a list of 8-bit words; the conversions between the
  two are \<open>bytes_of\<close> and \<open>string_of\<close>.
\<close>

section \<open>Types\<close>

type_synonym byte = "8 word"
type_synonym bytes = "8 word list"
type_synonym uint32 = "32 word"
type_synonym int64 = "64 word"

definition bytes_of :: "string \<Rightarrow> bytes" where
  "bytes_of s = map of_char s"

definition string_of :: "bytes \<Rightarrow> string" where
  "string_of bs = map (\<lambda>b. char_of (unat b)) bs"

section \<open>Collections of facts\<close>

named_theorems go_simps \<open>defining equations the component proofs unfold together\<close>
named_theorems frame_simps \<open>what an operation leaves unchanged\<close>

section \<open>Errors\<close>

text \<open>
  A Go function returning \<open>(T, error)\<close> is a function into \<open>'e + 'a\<close>: \<^term>\<open>Inl e\<close> for
  a non-nil error, \<^term>\<open>Inr x\<close> for a result. \<open>bindE\<close> is the \<open>if err != nil { return }\<close> idiom
  and \<open>mapE\<close> the wrapping of an error in the caller's own.
\<close>

definition bindE :: "'e + 'a \<Rightarrow> ('a \<Rightarrow> 'e + 'b) \<Rightarrow> 'e + 'b" where
  "bindE r f = (case r of Inl e \<Rightarrow> Inl e | Inr x \<Rightarrow> f x)"

definition mapE :: "('e \<Rightarrow> 'f) \<Rightarrow> 'e + 'a \<Rightarrow> 'f + 'a" where
  "mapE g r = (case r of Inl e \<Rightarrow> Inl (g e) | Inr x \<Rightarrow> Inr x)"

definition ofOption :: "'e \<Rightarrow> 'a option \<Rightarrow> 'e + 'a" where
  "ofOption e r = (case r of None \<Rightarrow> Inl e | Some x \<Rightarrow> Inr x)"

lemma bindE_simps [simp]:
  "bindE (Inl e) f = Inl e"
  "bindE (Inr x) f = f x"
  by (simp_all add: bindE_def)

lemma mapE_simps [simp]:
  "mapE g (Inl e) = Inl (g e)"
  "mapE g (Inr x) = Inr x"
  by (simp_all add: mapE_def)

lemma ofOption_simps [simp]:
  "ofOption e None = Inl e"
  "ofOption e (Some x) = Inr x"
  by (simp_all add: ofOption_def)

lemma bindE_Inr_iff: "bindE r f = Inr y \<longleftrightarrow> (\<exists>x. r = Inr x \<and> f x = Inr y)"
  by (cases r) auto

lemma bindE_Inl_iff: "bindE r f = Inl e \<longleftrightarrow> r = Inl e \<or> (\<exists>x. r = Inr x \<and> f x = Inl e)"
  by (cases r) auto

lemma mapE_Inr_iff [simp]: "mapE g r = Inr y \<longleftrightarrow> r = Inr y"
  by (cases r) auto

lemma mapE_Inl_iff: "mapE g r = Inl e \<longleftrightarrow> (\<exists>e'. r = Inl e' \<and> e = g e')"
  by (cases r) auto

lemma ofOption_Inr_iff [simp]: "ofOption e r = Inr x \<longleftrightarrow> r = Some x"
  by (cases r) auto

lemma ofOption_Inl_iff [simp]: "ofOption e r = Inl e' \<longleftrightarrow> r = None \<and> e' = e"
  by (cases r) auto

lemmas err_iffs = bindE_Inr_iff bindE_Inl_iff mapE_Inl_iff

section \<open>Bytes and strings\<close>

lemma unat_of_char_byte: "unat (of_char c :: byte) = of_char c"
proof -
  have "(of_char c :: nat) < 2 ^ LENGTH(8)"
    by simp
  then have "unat (word_of_nat (of_char c) :: byte) = of_char c"
    by (simp add: unsigned_of_nat take_bit_nat_eq_self)
  then show ?thesis
    by (simp only: of_nat_of_char)
qed

lemma string_of_bytes_of [simp]: "string_of (bytes_of s) = s"
  by (simp add: string_of_def bytes_of_def comp_def unat_of_char_byte map_idI)

lemma unat_byte_less: "unat (b :: byte) < 256"
proof -
  have "unat b < 2 ^ LENGTH(8)"
    by (rule unsigned_less)
  then show ?thesis
    by simp
qed

lemma of_char_char_of_byte: "(of_char (char_of (unat (b::byte)) :: char) :: byte) = b"
proof -
  have "(of_char (char_of (unat b) :: char) :: nat) = unat b"
    using unat_byte_less [of b] by (simp add: of_char_of)
  then have "word_of_nat (of_char (char_of (unat b) :: char)) = b"
    by simp
  then show ?thesis
    by (simp only: of_nat_of_char)
qed

lemma bytes_of_string_of [simp]: "bytes_of (string_of bs) = bs"
  by (simp add: string_of_def bytes_of_def comp_def of_char_char_of_byte map_idI)

lemma length_bytes_of [simp]: "length (bytes_of s) = length s"
  by (simp add: bytes_of_def)

lemma length_string_of [simp]: "length (string_of bs) = length bs"
  by (simp add: string_of_def)

lemma bytes_of_append [simp]: "bytes_of (s @ t) = bytes_of s @ bytes_of t"
  by (simp add: bytes_of_def)

lemma bytes_of_eq_iff [simp]: "bytes_of s = bytes_of t \<longleftrightarrow> s = t"
  by (metis string_of_bytes_of)

section \<open>Lists and multisets\<close>

lemma mset_remove_middle: "mset (xs @ x # ys) = add_mset x (mset (xs @ ys))"
  by simp

lemma length_filter_count_list: "length (filter (\<lambda>x. x = v) xs) = count_list xs v"
  by (induction xs) auto

lemma nth_update_if: "j < length xs \<Longrightarrow> xs[i := x] ! j = (if i = j then x else xs ! j)"
  by auto

lemma distinct_submset:
  assumes "distinct xs" "mset ys \<subseteq># mset xs"
  shows "distinct ys"
proof -
  have "count (mset ys) a = (if a \<in> set ys then 1 else 0)" for a
  proof -
    have "count (mset ys) a \<le> count (mset xs) a"
      using assms(2) by (rule mset_subset_eq_count)
    also have "\<dots> \<le> 1"
      using assms(1) by (simp add: distinct_count_atmost_1)
    finally show ?thesis
      by (metis One_nat_def count_mset_0_iff le_SucE le_zero_eq)
  qed
  then show ?thesis
    by (simp add: distinct_count_atmost_1)
qed

end
