(* ===== verification/Go_Map.thy ===== *)
theory Go_Map
  imports Goxo_Prelude
begin

text \<open>
  Go's built-in \<open>map[K]V\<close>. A map value is kept in a canonical form, the association list
  with strictly increasing keys, so that two maps with the same entries are equal in HOL and
  \<open>len\<close> is the list's length. \<open>encoding/json\<close> prints a map in exactly this key order; an
  iteration whose order matters to a caller picks an arbitrary entry instead.
  The interfaces \<open>store\<close> (insert and look up) and \<open>gate\<close> (which also deletes) are what the
  rest of the development uses of a map.
\<close>

type_synonym ('k, 'v) gomap = "('k \<times> 'v) list"

fun mput :: "'k::linorder \<Rightarrow> 'v \<Rightarrow> ('k, 'v) gomap \<Rightarrow> ('k, 'v) gomap" where
  "mput k v [] = [(k, v)]"
| "mput k v ((k', v') # m) =
     (if k < k' then (k, v) # (k', v') # m
      else if k = k' then (k, v) # m
      else (k', v') # mput k v m)"

fun mdel :: "'k::linorder \<Rightarrow> ('k, 'v) gomap \<Rightarrow> ('k, 'v) gomap" where
  "mdel k [] = []"
| "mdel k ((k', v') # m) = (if k = k' then m else (k', v') # mdel k m)"

definition mwf :: "('k::linorder, 'v) gomap \<Rightarrow> bool" where
  "mwf m \<longleftrightarrow> sorted_wrt (<) (map fst m)"

definition mput_all :: "('k::linorder \<times> 'v) list \<Rightarrow> ('k, 'v) gomap \<Rightarrow> ('k, 'v) gomap" where
  "mput_all kvs m = fold (\<lambda>(k, v). mput k v) kvs m"

section \<open>Entries\<close>

lemma mwf_Nil [simp]: "mwf []"
  by (simp add: mwf_def)

lemma mwf_distinct: "mwf m \<Longrightarrow> distinct (map fst m)"
  by (simp add: mwf_def strict_sorted_iff)

lemma map_of_mput [simp]: "map_of (mput k v m) = (map_of m)(k \<mapsto> v)"
  by (induction k v m rule: mput.induct) (auto simp: fun_eq_iff)

lemma keys_mput: "fst ` set (mput k v m) = insert k (fst ` set m)"
  by (induction k v m rule: mput.induct) (auto)

lemma mwf_Cons: "mwf ((k, v) # m) \<longleftrightarrow> (\<forall>k' \<in> fst ` set m. k < k') \<and> mwf m"
  by (simp add: mwf_def)

lemma mwf_mput [simp]: "mwf m \<Longrightarrow> mwf (mput k v m)"
  by (induction k v m rule: mput.induct) (auto simp: mwf_Cons keys_mput)

lemma set_mdel_subset: "set (mdel k m) \<subseteq> set m"
  by (induction k m rule: mdel.induct) auto

lemma mwf_mdel [simp]: "mwf m \<Longrightarrow> mwf (mdel k m)"
proof (induction k m rule: mdel.induct)
  case (2 k k' v' m)
  then show ?case
    using set_mdel_subset [of k m] by (auto simp: mwf_Cons)
qed simp

lemma map_of_mdel: "mwf m \<Longrightarrow> map_of (mdel k m) = (map_of m)(k := None)"
proof (induction k m rule: mdel.induct)
  case (2 k k' v' m)
  then have "k' \<notin> fst ` set m"
    by (auto simp: mwf_Cons)
  then have "map_of m k' = None"
    by (simp add: map_of_eq_None_iff)
  with 2 show ?case
    by (auto simp: mwf_Cons fun_eq_iff)
qed simp

lemma mdel_absent: "map_of m k = None \<Longrightarrow> mdel k m = m"
  by (induction k m rule: mdel.induct) (auto split: if_splits)

lemma mset_mput_fresh: "map_of m k = None \<Longrightarrow> mset (mput k v m) = add_mset (k, v) (mset m)"
  by (induction k v m rule: mput.induct) (auto split: if_splits)

lemma mset_mdel_present: "map_of m k = Some v \<Longrightarrow> mset m = add_mset (k, v) (mset (mdel k m))"
  by (induction k m rule: mdel.induct) (auto split: if_splits)

lemma length_mput_fresh: "map_of m k = None \<Longrightarrow> length (mput k v m) = Suc (length m)"
  using mset_mput_fresh [of m k v] by (metis size_add_mset size_mset)

lemma length_mdel_present: "map_of m k = Some v \<Longrightarrow> length m = Suc (length (mdel k m))"
  using mset_mdel_present [of m k v] by (metis size_add_mset size_mset)

lemma length_mdel_le: "length (mdel k m) \<le> length m"
  by (induction k m rule: mdel.induct) auto

lemma set_mput_fresh: "map_of m k = None \<Longrightarrow> set (mput k v m) = insert (k, v) (set m)"
  using mset_mput_fresh [of m k v] by (metis set_mset_add_mset_insert set_mset_mset)

lemma keys_mdel: "fst ` set (mdel k m) \<subseteq> fst ` set m"
  using set_mdel_subset by (rule image_mono)

lemma keys_mput_present: "map_of m k = Some v0 \<Longrightarrow> fst ` set (mput k v m) = fst ` set m"
  by (metis keys_mput insert_absorb map_of_eq_None_iff option.distinct(1))

lemma mset_mput_present:
  "mwf m \<Longrightarrow> map_of m k = Some v0 \<Longrightarrow> add_mset (k, v0) (mset (mput k v m)) = add_mset (k, v) (mset m)"
proof (induction k v m rule: mput.induct)
  case (2 k v k' v' m)
  show ?case
  proof (cases "k < k'")
    case True
    then have "k \<notin> fst ` set ((k', v') # m)"
      using 2(2) by (auto simp: mwf_Cons dest: less_trans)
    then show ?thesis
      using 2(3) by (simp add: map_of_eq_None_iff [symmetric])
  next
    case False
    with 2 show ?thesis
      by (auto simp: mwf_Cons add_mset_commute)
  qed
qed simp

lemma mset_mput_replace:
  assumes "mwf m" "map_of m k = Some v0"
  shows "mset (mput k v m) = add_mset (k, v) (mset (mdel k m))"
proof -
  have "add_mset (k, v0) (mset (mput k v m)) = add_mset (k, v0) (add_mset (k, v) (mset (mdel k m)))"
    using mset_mput_present [OF assms] mset_mdel_present [OF assms(2)] by simp
  then show ?thesis
    by simp
qed

text \<open>The canonical form: two well-formed maps with the same entries are the same list.\<close>

lemma mwf_ext: "mwf m \<Longrightarrow> mwf m' \<Longrightarrow> map_of m = map_of m' \<Longrightarrow> m = m'"
proof -
  assume wf: "mwf m" "mwf m'" and eq: "map_of m = map_of m'"
  then have same: "set m = set m'"
    by (simp add: map_of_inject_set mwf_distinct)
  have "inj_on fst (set m \<union> set m')"
    using wf(1) mwf_distinct by (auto simp: same [symmetric] distinct_map)
  then show ?thesis
    using wf same by (auto simp: mwf_def strict_sorted_iff intro!: map_sorted_distinct_set_unique)
qed

lemma mwf_mput_all [simp]: "mwf m \<Longrightarrow> mwf (mput_all kvs m)"
  unfolding mput_all_def by (induction kvs arbitrary: m) auto

section \<open>Interfaces\<close>

locale store =
  fixes emp :: "'m"
    and look :: "'m \<Rightarrow> 'k \<Rightarrow> 'v option"
    and ins :: "'k \<Rightarrow> 'v \<Rightarrow> 'm \<Rightarrow> 'm"
  assumes look_emp: "look emp k = None"
    and look_ins: "look (ins k v m) = (look m)(k \<mapsto> v)"
begin

lemma look_ins_same: "look (ins k v m) k = Some v"
  by (simp add: look_ins)

lemma look_ins_other: "k \<noteq> k' \<Longrightarrow> look (ins k v m) k' = look m k'"
  by (simp add: look_ins)

text \<open>Inserting a list of bindings in order: for each key the last binding wins.\<close>

lemma look_fold_ins:
  "look (fold (\<lambda>(k, v). ins k v) kvs m) k =
     (case map_of (rev kvs) k of None \<Rightarrow> look m k | Some v \<Rightarrow> Some v)"
proof (induction kvs arbitrary: m)
  case Nil
  then show ?case by simp
next
  case (Cons kv kvs)
  obtain a b where kv: "kv = (a, b)"
    by (cases kv)
  show ?case
    unfolding kv by (simp add: Cons.IH look_ins map_add_def split: option.split)
qed

lemma look_fold_fresh:
  "k \<notin> fst ` set kvs \<Longrightarrow> look (fold (\<lambda>(k, v). ins k v) kvs m) k = look m k"
  by (simp add: look_fold_ins map_of_eq_None_iff [THEN iffD2] split: option.split)

end

text \<open>
  A \<open>gate\<close> is a store whose entries are claimed by deleting them: whoever deletes an entry
  gets it, and nobody gets it again. The worker settles messages through one.
\<close>

locale gate = store emp look ins
  for emp :: "'m" and look :: "'m \<Rightarrow> 'k \<Rightarrow> 'v option" and ins :: "'k \<Rightarrow> 'v \<Rightarrow> 'm \<Rightarrow> 'm" +
  fixes del :: "'k \<Rightarrow> 'm \<Rightarrow> 'm"
    and ents :: "'m \<Rightarrow> ('k \<times> 'v) multiset"
    and invar :: "'m \<Rightarrow> bool"
  assumes invar_emp: "invar emp"
    and invar_ins: "invar m \<Longrightarrow> invar (ins k v m)"
    and invar_del: "invar m \<Longrightarrow> invar (del k m)"
    and look_del: "invar m \<Longrightarrow> look (del k m) = (look m)(k := None)"
    and ents_emp: "ents emp = {#}"
    and ents_ins: "look m k = None \<Longrightarrow> ents (ins k v m) = add_mset (k, v) (ents m)"
    and ents_del: "look m k = Some v \<Longrightarrow> ents m = add_mset (k, v) (ents (del k m))"
begin

text \<open>A second claim of the same key finds nothing.\<close>

lemma claim_once: "invar m \<Longrightarrow> look (del k m) k = None"
  by (simp add: look_del)

lemma claim_other: "invar m \<Longrightarrow> k \<noteq> k' \<Longrightarrow> look (del k m) k' = look m k'"
  by (simp add: look_del)

lemma size_ins: "look m k = None \<Longrightarrow> size (ents (ins k v m)) = Suc (size (ents m))"
  by (simp add: ents_ins)

lemma size_del: "look m k = Some v \<Longrightarrow> size (ents m) = Suc (size (ents (del k m)))"
  by (drule ents_del) simp

lemma image_ins:
  "look m k = None \<Longrightarrow> image_mset f (ents (ins k v m)) = add_mset (f (k, v)) (image_mset f (ents m))"
  by (simp add: ents_ins)

lemma image_del:
  "look m k = Some v \<Longrightarrow> image_mset f (ents m) = add_mset (f (k, v)) (image_mset f (ents (del k m)))"
  by (drule ents_del) simp

end

interpretation gm: store "[]" map_of mput
  by unfold_locales simp_all

interpretation gg: gate "[]" map_of mput mdel mset mwf
  by unfold_locales (simp_all add: map_of_mdel mset_mput_fresh mset_mdel_present)

lemma map_of_mput_all:
  "map_of (mput_all kvs m) k =
     (case map_of (rev kvs) k of None \<Rightarrow> map_of m k | Some v \<Rightarrow> Some v)"
  unfolding mput_all_def by (rule gm.look_fold_ins)

end
