(* ===== verification/Go_Utf8.thy ===== *)
theory Go_Utf8
  imports Goxo_Prelude
begin

text \<open>
  Go's \<open>unicode/utf8\<close> as \<open>encoding/json\<close> uses it. A Go string is a sequence of bytes that need not be
  UTF-8; \<open>utf8_len\<close> is the width \<open>DecodeRune\<close> reports for a valid sequence at the front and 0 for an
  invalid byte, \<open>runes\<close> splits a string into valid sequences and single invalid bytes, \<open>encode_rune\<close>
  is \<open>EncodeRune\<close>, and \<open>sanitize\<close> puts U+FFFD in place of every invalid byte.
\<close>

abbreviation code :: "char \<Rightarrow> nat" where
  "code c \<equiv> of_char c"

lemma code_less: "code c < 256"
  by (rule of_char_mod_256 [of c, where 'a = nat, THEN subst]) simp

definition is_cont :: "char \<Rightarrow> bool" where
  "is_cont c \<longleftrightarrow> 128 \<le> code c \<and> code c \<le> 191"

text \<open>The second byte's range depends on the first (no overlong forms, no surrogates, nothing above U+10FFFF).\<close>

definition second_ok :: "nat \<Rightarrow> char \<Rightarrow> bool" where
  "second_ok n c \<longleftrightarrow>
     (if n = 224 then 160 \<le> code c \<and> code c \<le> 191
      else if n = 237 then 128 \<le> code c \<and> code c \<le> 159
      else if n = 240 then 144 \<le> code c \<and> code c \<le> 191
      else if n = 244 then 128 \<le> code c \<and> code c \<le> 143
      else is_cont c)"

text \<open>How many bytes a sequence with this first byte has; 0 for a byte no sequence starts with.\<close>

definition lead :: "nat \<Rightarrow> nat" where
  "lead n = (if n < 128 then 1 else if n < 194 then 0 else if n < 224 then 2 else if n < 240 then 3
     else if n < 245 then 4 else 0)"

fun utf8_len :: "string \<Rightarrow> nat" where
  "utf8_len [] = 0"
| "utf8_len (c # cs) =
     (if lead (code c) \<le> 1 then lead (code c)
      else if lead (code c) \<le> Suc (length cs) \<and> second_ok (code c) (hd cs) \<and>
        list_all is_cont (take (lead (code c) - 2) (tl cs)) then lead (code c)
      else 0)"

declare utf8_len.simps(2) [simp del]

lemma lead_ascii [simp]: "code c < 128 \<Longrightarrow> lead (code c) = 1"
  by (simp add: lead_def)

lemma utf8_len_ascii [simp]: "code c < 128 \<Longrightarrow> utf8_len (c # cs) = 1"
  by (simp add: utf8_len.simps)

lemma utf8_len_le: "utf8_len s \<le> length s"
  by (cases s) (auto simp: utf8_len.simps)

text \<open>A valid sequence stays one, of the same length, whatever follows it, and all of its bytes are above 127
  when it is longer than one.\<close>

lemma utf8_len_take:
  assumes "0 < utf8_len s"
  shows "utf8_len (take (utf8_len s) s @ rest) = utf8_len s"
proof -
  obtain c cs where s: "s = c # cs"
    using assms by (cases s) auto
  show ?thesis
  proof (cases "lead (code c) \<le> 1")
    case True
    then have "utf8_len s = 1"
      using assms by (auto simp: s utf8_len.simps)
    then show ?thesis
      using True by (simp add: s utf8_len.simps)
  next
    case False
    then obtain k where k: "lead (code c) = Suc (Suc k)"
      by (cases "lead (code c)"; cases "lead (code c) - 1") auto
    have ok: "Suc k \<le> length cs" "second_ok (code c) (hd cs)" "list_all is_cont (take k (tl cs))"
      using assms False by (auto simp: s utf8_len.simps k split: if_splits)
    then obtain c1 cs' where cs: "cs = c1 # cs'" "k \<le> length cs'"
      by (cases cs) auto
    show ?thesis
      using ok by (simp add: s utf8_len.simps k cs)
  qed
qed

lemma second_ok_high: "second_ok n c \<Longrightarrow> 128 \<le> code c"
  by (auto simp: second_ok_def is_cont_def split: if_splits)

lemma utf8_len_high:
  assumes "1 < utf8_len s" "c \<in> set (take (utf8_len s) s)"
  shows "128 \<le> code c"
proof -
  obtain c0 cs where s: "s = c0 # cs"
    using assms by (cases s) auto
  have lead: "1 < lead (code c0)"
    using assms(1) by (auto simp: s utf8_len.simps split: if_splits)
  then obtain k where k: "lead (code c0) = Suc (Suc k)"
    by (cases "lead (code c0)"; cases "lead (code c0) - 1") auto
  have ok: "second_ok (code c0) (hd cs)" "list_all is_cont (take k (tl cs))" "Suc k \<le> length cs"
    using assms(1) lead by (auto simp: s utf8_len.simps k split: if_splits)
  then obtain c1 cs' where cs: "cs = c1 # cs'"
    by (cases cs) auto
  have "c \<in> insert c0 (insert c1 (set (take k cs')))"
    using assms(2) lead ok by (auto simp: s utf8_len.simps k cs split: if_splits)
  moreover have "128 \<le> code c0"
    using lead lead_ascii [of c0] by (cases "code c0 < 128") auto
  moreover have "128 \<le> code c1"
    using ok(1) second_ok_high by (simp add: cs)
  moreover have "128 \<le> code d" if "d \<in> set (take k cs')" for d
    using that ok(2) by (auto simp: cs list_all_iff is_cont_def)
  ultimately show ?thesis
    by blast
qed

datatype rune = Valid string | Invalid char

fun rune_bytes :: "rune \<Rightarrow> string" where
  "rune_bytes (Valid s) = s"
| "rune_bytes (Invalid c) = [c]"

function runes :: "string \<Rightarrow> rune list" where
  "runes [] = []"
| "runes (c # cs) =
     (if utf8_len (c # cs) = 0 then Invalid c # runes cs
      else Valid (take (utf8_len (c # cs)) (c # cs)) # runes (drop (utf8_len (c # cs)) (c # cs)))"
  by pat_completeness auto
termination
  by (relation "measure length") auto

declare runes.simps(2) [simp del]

lemma runes_bytes: "concat (map rune_bytes (runes s)) = s"
  by (induction s rule: runes.induct) (auto simp: runes.simps(2))

fun fix_rune :: "rune \<Rightarrow> string" where
  "fix_rune (Valid s) = s"
| "fix_rune (Invalid c) = map char_of [239, 191, 189 :: nat]"

definition sanitize :: "string \<Rightarrow> string" where
  "sanitize s = concat (map fix_rune (runes s))"

fun is_valid :: "rune \<Rightarrow> bool" where
  "is_valid (Valid s) = True"
| "is_valid (Invalid c) = False"

definition valid_utf8 :: "string \<Rightarrow> bool" where
  "valid_utf8 s \<longleftrightarrow> list_all is_valid (runes s)"

lemma fix_rune_valid: "is_valid r \<Longrightarrow> fix_rune r = rune_bytes r"
  by (cases r) simp_all

lemma sanitize_valid: "valid_utf8 s \<Longrightarrow> sanitize s = s"
proof -
  assume "valid_utf8 s"
  then have "map fix_rune (runes s) = map rune_bytes (runes s)"
    by (intro map_cong refl) (simp add: valid_utf8_def list_all_iff fix_rune_valid)
  then show ?thesis
    by (simp only: sanitize_def runes_bytes)
qed

lemma runes_ascii: "list_all (\<lambda>c. code c < 128) s \<Longrightarrow> runes s = map (\<lambda>c. Valid [c]) s"
  by (induction s) (simp_all add: runes.simps(2))

lemma valid_ascii: "list_all (\<lambda>c. code c < 128) s \<Longrightarrow> valid_utf8 s"
  by (simp add: valid_utf8_def runes_ascii list_all_iff)

definition encode_rune :: "nat \<Rightarrow> string" where
  "encode_rune r = map char_of
     (if r < 128 then [r]
      else if r < 2048 then [192 + r div 64, 128 + r mod 64]
      else if 55296 \<le> r \<and> r \<le> 57343 \<or> 1114111 < r then [239, 191, 189]
      else if r < 65536 then [224 + r div 4096, 128 + r div 64 mod 64, 128 + r mod 64]
      else [240 + r div 262144, 128 + r div 4096 mod 64, 128 + r div 64 mod 64, 128 + r mod 64 :: nat])"

end
