(* ===== verification/Go_Strings.thy ===== *)
theory Go_Strings
  imports Goxo_Prelude
begin

text \<open>
  The parts of Go's \<open>strings\<close>, \<open>strconv\<close>, \<open>fmt\<close> and \<open>net\<close> packages the program calls:
  decimal printing and parsing (\<open>strconv.Itoa\<close>, \<open>strconv.Atoi\<close>), \<open>strings.Fields\<close>,
  \<open>strings.LastIndex\<close> of one character, the \<open>%x\<close> verb and \<open>net.JoinHostPort\<close>. They are part of the
  language's standard library; the theories of the program use them.
\<close>

section \<open>Decimal numbers\<close>

definition digit_char :: "nat \<Rightarrow> char" where
  "digit_char d = char_of (48 + d)"

definition is_digit :: "char \<Rightarrow> bool" where
  "is_digit c \<longleftrightarrow> 48 \<le> (of_char c :: nat) \<and> (of_char c :: nat) \<le> 57"

definition digit_val :: "char \<Rightarrow> nat" where
  "digit_val c = of_char c - 48"

fun dec_of_nat :: "nat \<Rightarrow> string" where
  "dec_of_nat n = (if n < 10 then [digit_char n] else dec_of_nat (n div 10) @ [digit_char (n mod 10)])"

declare dec_of_nat.simps [simp del]

definition nat_of_dec :: "string \<Rightarrow> nat" where
  "nat_of_dec s = foldl (\<lambda>n c. 10 * n + digit_val c) 0 s"

definition itoa :: "int \<Rightarrow> string" where
  "itoa i = (if i < 0 then CHR ''-'' # dec_of_nat (nat (- i)) else dec_of_nat (nat i))"

definition sign_split :: "string \<Rightarrow> bool \<times> string" where
  "sign_split s =
     (case s of [] \<Rightarrow> (False, [])
      | c # cs \<Rightarrow> if c = CHR ''-'' then (True, cs) else if c = CHR ''+'' then (False, cs) else (False, s))"

text \<open>
  \<open>strconv.Atoi\<close> (base 10, 64-bit): an optional sign, at least one digit, nothing else, and a
  value in the range of \<open>int64\<close>; \<^term>\<open>None\<close> is its error.
\<close>

definition atoi :: "string \<Rightarrow> int option" where
  "atoi s =
     (let (neg, ds) = sign_split s;
          v = (if neg then - int (nat_of_dec ds) else int (nat_of_dec ds))
      in if ds = [] \<or> \<not> list_all is_digit ds then None
         else if v < - (2 ^ 63) \<or> 2 ^ 63 \<le> v then None
         else Some v)"

lemma of_char_digit_char: "d < 10 \<Longrightarrow> (of_char (digit_char d) :: nat) = 48 + d"
  by (simp add: digit_char_def of_char_of)

lemma digit_char_props [simp]:
  assumes "d < 10"
  shows "is_digit (digit_char d)" "digit_val (digit_char d) = d"
  using assms by (simp_all add: is_digit_def digit_val_def of_char_digit_char)

lemma dec_of_nat_nonempty [simp]: "dec_of_nat n \<noteq> []"
  by (subst dec_of_nat.simps) simp

lemma dec_of_nat_digits: "list_all is_digit (dec_of_nat n)"
proof (induction n rule: dec_of_nat.induct)
  case (1 n)
  then show ?case
    by (cases "n < 10") (simp_all add: dec_of_nat.simps [of n])
qed

lemma nat_of_dec_snoc: "nat_of_dec (s @ [c]) = 10 * nat_of_dec s + digit_val c"
  by (simp add: nat_of_dec_def)

lemma nat_of_dec_of_nat [simp]: "nat_of_dec (dec_of_nat n) = n"
proof (induction n rule: dec_of_nat.induct)
  case (1 n)
  show ?case
  proof (cases "n < 10")
    case True
    then show ?thesis
      by (simp add: dec_of_nat.simps [of n] nat_of_dec_def)
  next
    case False
    with 1 show ?thesis
      by (simp add: dec_of_nat.simps [of n] nat_of_dec_snoc)
  qed
qed

lemma dec_of_nat_inject [simp]: "dec_of_nat m = dec_of_nat n \<longleftrightarrow> m = n"
  by (metis nat_of_dec_of_nat)

lemma digit_not_sign: "is_digit c \<Longrightarrow> c \<noteq> CHR ''-'' \<and> c \<noteq> CHR ''+''"
  by (auto simp: is_digit_def)

lemma sign_split_dec [simp]: "sign_split (dec_of_nat n) = (False, dec_of_nat n)"
proof (cases "dec_of_nat n")
  case (Cons c cs)
  then have "is_digit c"
    using dec_of_nat_digits [of n] by simp
  then show ?thesis
    using Cons digit_not_sign [of c] by (simp add: sign_split_def)
qed simp

lemma sign_split_minus [simp]: "sign_split (CHR ''-'' # s) = (True, s)"
  by (simp add: sign_split_def)

lemma atoi_itoa: "- (2 ^ 63) \<le> i \<Longrightarrow> i < 2 ^ 63 \<Longrightarrow> atoi (itoa i) = Some i"
  by (auto simp: atoi_def itoa_def dec_of_nat_digits Let_def)

lemma atoi_range: "atoi s = Some i \<Longrightarrow> - (2 ^ 63) \<le> i \<and> i < 2 ^ 63"
  by (auto simp: atoi_def Let_def split: prod.splits if_splits)

section \<open>strings.Fields\<close>

text \<open>
  \<open>strings.Fields\<close> splits around runs of \<open>unicode.IsSpace\<close> characters of the UTF-8 text.
  \<open>space_len s\<close> is the length in bytes of the white-space character \<open>s\<close> starts with, 0 if it starts with none:
  the ASCII spaces, U+0085, U+00A0, U+1680, U+2000 to U+200A, U+2028, U+2029, U+202F, U+205F and U+3000.
  None of their first bytes is a UTF-8 continuation byte, so advancing byte by byte over other characters
  finds the same places as decoding them.
\<close>

definition space_len :: "string \<Rightarrow> nat" where
  "space_len s =
     (case map of_char s :: nat list of
        [] \<Rightarrow> 0
      | a # r \<Rightarrow>
          if a \<in> {9, 10, 11, 12, 13, 32} then 1
          else (case r of
            [] \<Rightarrow> 0
          | b # q \<Rightarrow>
              if a = 0xC2 \<and> b \<in> {0x85, 0xA0} then 2
              else (case q of
                [] \<Rightarrow> 0
              | c # _ \<Rightarrow>
                  if (a = 0xE1 \<and> b = 0x9A \<and> c = 0x80)
                    \<or> (a = 0xE2 \<and> b = 0x80 \<and> (0x80 \<le> c \<and> c \<le> 0x8A \<or> c \<in> {0xA8, 0xA9, 0xAF}))
                    \<or> (a = 0xE2 \<and> b = 0x81 \<and> c = 0x9F)
                    \<or> (a = 0xE3 \<and> b = 0x80 \<and> c = 0x80) then 3
                  else 0)))"

definition flush :: "string \<Rightarrow> string list \<Rightarrow> string list" where
  "flush cur ws = (if cur = [] then ws else cur # ws)"

fun fields_from :: "string \<Rightarrow> string \<Rightarrow> string list" where
  "fields_from cur [] = flush cur []"
| "fields_from cur (c # s) =
     (if 0 < space_len (c # s) then flush cur (fields_from [] (drop (space_len (c # s) - 1) s))
      else fields_from (cur @ [c]) s)"

definition fields :: "string \<Rightarrow> string list" where
  "fields s = fields_from [] s"

lemma fields_from_nonempty: "w \<in> set (fields_from cur s) \<Longrightarrow> w \<noteq> []"
  by (induction cur s rule: fields_from.induct) (auto simp: flush_def split: if_splits)

lemma fields_nonempty: "w \<in> set (fields s) \<Longrightarrow> w \<noteq> []"
  by (simp add: fields_def fields_from_nonempty)

text \<open>Only printable ASCII: no byte of the word starts a white-space character.\<close>

definition plain_char :: "char \<Rightarrow> bool" where
  "plain_char c \<longleftrightarrow> 32 < (of_char c :: nat) \<and> (of_char c :: nat) < 127"

lemma space_len_plain: "plain_char c \<Longrightarrow> space_len (c # s) = 0"
  by (auto simp: space_len_def plain_char_def split: list.splits)

lemma space_len_blank: "space_len (CHR '' '' # s) = 1"
  by (simp add: space_len_def)

lemma fields_from_word:
  "list_all plain_char w \<Longrightarrow> fields_from cur (w @ s) = fields_from (cur @ w) s"
  by (induction w arbitrary: cur) (simp_all add: space_len_plain)

lemma fields_word_blank:
  assumes "list_all plain_char w" "w \<noteq> []"
  shows "fields (w @ CHR '' '' # s) = w # fields s"
  using assms by (simp add: fields_def fields_from_word space_len_blank flush_def)

lemma fields_word: "list_all plain_char w \<Longrightarrow> w \<noteq> [] \<Longrightarrow> fields w = [w]"
  using fields_from_word [of w "[]" "[]"] by (simp add: fields_def flush_def)

fun join_blank :: "string list \<Rightarrow> string" where
  "join_blank [] = []"
| "join_blank [w] = w"
| "join_blank (w # ws) = w @ CHR '' '' # join_blank ws"

lemma fields_join_blank:
  "\<forall>w \<in> set ws. list_all plain_char w \<and> w \<noteq> [] \<Longrightarrow> fields (join_blank ws) = ws"
  by (induction ws rule: join_blank.induct)
    (auto simp: fields_word fields_word_blank, simp add: fields_def flush_def)

section \<open>strings.LastIndex\<close>

text \<open>\<open>strings.LastIndex(s, c)\<close> for a one-character \<open>c\<close>: -1 when \<open>c\<close> does not occur.\<close>

fun last_index :: "string \<Rightarrow> char \<Rightarrow> int" where
  "last_index [] c = -1"
| "last_index (x # xs) c =
     (let i = last_index xs c in if 0 \<le> i then i + 1 else if x = c then 0 else -1)"

lemma last_index_absent: "last_index s c = -1 \<longleftrightarrow> c \<notin> set s"
proof (induction s)
  case (Cons x s)
  have "-1 \<le> last_index s c"
    by (induction s) (auto simp: Let_def)
  with Cons show ?case
    by (auto simp: Let_def)
qed simp

lemma last_index_ge: "-1 \<le> last_index s c"
  by (induction s) (auto simp: Let_def)

lemma last_index_neg: "last_index s c < 0 \<longleftrightarrow> c \<notin> set s"
  using last_index_ge [of s c] last_index_absent [of s c] by linarith

lemma last_index_append:
  "c \<notin> set t \<Longrightarrow> last_index (s @ c # t) c = int (length s)"
proof (induction s)
  case Nil
  then have "last_index t c = -1"
    by (simp add: last_index_absent)
  then show ?case
    by simp
qed simp

section \<open>The %x verb\<close>

definition hex_char :: "nat \<Rightarrow> char" where
  "hex_char d = (if d < 10 then char_of (48 + d) else char_of (87 + d))"

definition hex_byte :: "byte \<Rightarrow> string" where
  "hex_byte b = [hex_char (unat b div 16), hex_char (unat b mod 16)]"

definition hex_of :: "bytes \<Rightarrow> string" where
  "hex_of bs = concat (map hex_byte bs)"

lemma length_hex_of [simp]: "length (hex_of bs) = 2 * length bs"
  by (induction bs) (simp_all add: hex_of_def hex_byte_def)

lemma of_char_hex_char:
  assumes "d < 16"
  shows "(of_char (hex_char d) :: nat) = (if d < 10 then 48 + d else 87 + d)"
  using assms by (simp add: hex_char_def of_char_of)

lemma hex_char_inject:
  assumes "d < 16" "e < 16" "hex_char d = hex_char e"
  shows "d = e"
proof -
  have "(of_char (hex_char d) :: nat) = of_char (hex_char e)"
    using assms(3) by (rule arg_cong)
  then have "(if d < 10 then 48 + d else 87 + d) = (if e < 10 then 48 + e else 87 + e)"
    by (simp only: of_char_hex_char [OF assms(1)] of_char_hex_char [OF assms(2)])
  then show ?thesis
    by (simp split: if_splits)
qed

lemma nibbles_less [simp]:
  "unat (b :: byte) div 16 < 16"
  "unat b mod 16 < 16"
  using unat_byte_less [of b] by simp_all

lemma hex_byte_inject [simp]: "hex_byte a = hex_byte b \<longleftrightarrow> a = b"
proof
  assume "hex_byte a = hex_byte b"
  then have "hex_char (unat a div 16) = hex_char (unat b div 16)"
    and "hex_char (unat a mod 16) = hex_char (unat b mod 16)"
    by (simp_all only: hex_byte_def list.inject)
  then have "unat a div 16 = unat b div 16" "unat a mod 16 = unat b mod 16"
    by (simp_all only: hex_char_inject nibbles_less)
  then show "a = b"
    by (metis div_mult_mod_eq word_unat_eq_iff)
qed simp

lemma hex_of_Cons: "hex_of (b # bs) = hex_byte b @ hex_of bs"
  by (simp add: hex_of_def)

lemma hex_of_inject [simp]: "hex_of a = hex_of b \<longleftrightarrow> a = b"
proof
  assume "hex_of a = hex_of b"
  then show "a = b"
  proof (induction a arbitrary: b)
    case Nil
    then have "length (hex_of b) = 0"
      by (metis length_hex_of list.size(3) mult_0_right)
    then show ?case
      by simp
  next
    case (Cons x a)
    then have "length (hex_of b) = 2 * length (x # a)"
      by (metis length_hex_of)
    then obtain y c where "b = y # c"
      by (cases b) auto
    then have "hex_byte x @ hex_of a = hex_byte y @ hex_of c"
      using Cons.prems by (simp add: hex_of_Cons)
    then have "hex_byte x = hex_byte y" "hex_of a = hex_of c"
      by (simp_all add: append_eq_append_conv hex_byte_def)
    then show ?case
      using Cons.IH \<open>b = y # c\<close> by simp
  qed
qed simp

lemma hex_char_not_dot:
  assumes "d < 16"
  shows "CHR ''.'' \<noteq> hex_char d"
proof
  assume "CHR ''.'' = hex_char d"
  then have "(of_char CHR ''.'' :: nat) = of_char (hex_char d)"
    by (rule arg_cong)
  with assms show False
    by (simp add: of_char_hex_char split: if_splits)
qed

lemma hex_of_no_dot: "CHR ''.'' \<notin> set (hex_of bs)"
  by (induction bs) (simp_all add: hex_of_Cons hex_byte_def hex_char_not_dot hex_of_def [of "[]"])

section \<open>net.JoinHostPort\<close>

definition join_host_port :: "string \<Rightarrow> string \<Rightarrow> string" where
  "join_host_port host port =
     (if CHR '':'' \<in> set host then ''['' @ host @ '']:'' @ port else host @ '':'' @ port)"

end
