(* ===== verification/Go_Json.thy ===== *)
theory Go_Json
  imports Go_Utf8 Go_Strings
begin

text \<open>
  Go's \<open>encoding/json\<close> as the engine uses it. A JSON text is read into a tree whose numbers are still
  literals and whose object members are in the order of the text, duplicates kept: the lexer is a
  state machine over the bytes, and the parser a stack machine over the tokens, as in the package's
  \<open>scanner\<close>, with its limit on nesting. \<open>json_text\<close> is the compact form \<open>Marshal\<close> writes, with its
  escaping of HTML characters and of invalid UTF-8. The round trip of the two is \<open>parse_text\<close>.
\<close>

datatype json =
    JNull
  | JBool bool
  | JNum string
  | JStr string
  | JArr "json list"
  | JObj "(string \<times> json) list"

section \<open>Strings\<close>

definition hex_digit :: "char \<Rightarrow> nat option" where
  "hex_digit c =
     (let n = code c in
      if 48 \<le> n \<and> n \<le> 57 then Some (n - 48)
      else if 97 \<le> n \<and> n \<le> 102 then Some (n - 87)
      else if 65 \<le> n \<and> n \<le> 70 then Some (n - 55)
      else None)"

text \<open>\<open>getu4\<close>: the value of the escape at the front, if there is one.\<close>

fun hex4 :: "string \<Rightarrow> nat option" where
  "hex4 (a # b # c # d # cs) =
     (case (hex_digit a, hex_digit b, hex_digit c, hex_digit d) of
        (Some w, Some x, Some y, Some z) \<Rightarrow> Some (4096 * w + 256 * x + 16 * y + z)
      | _ \<Rightarrow> None)"
| "hex4 _ = None"

definition is_surrogate :: "nat \<Rightarrow> bool" where
  "is_surrogate r \<longleftrightarrow> 55296 \<le> r \<and> r \<le> 57343"

text \<open>\<open>utf16.DecodeRune\<close> on a surrogate and what follows it: the pair's rune when it is one.\<close>

definition pair_rune :: "nat \<Rightarrow> string \<Rightarrow> nat option" where
  "pair_rune r cs =
     (case cs of
        c # d # ds \<Rightarrow>
          (if code c = 92 \<and> code d = 117 then
             (case hex4 ds of
                Some r2 \<Rightarrow> (if r \<le> 56319 \<and> 56320 \<le> r2 \<and> r2 \<le> 57343
                            then Some (65536 + (r - 55296) * 1024 + (r2 - 56320)) else None)
              | None \<Rightarrow> None)
           else None)
      | _ \<Rightarrow> None)"

definition simple_escape :: "char \<Rightarrow> char option" where
  "simple_escape c =
     (if c = CHR 0x22 then Some CHR 0x22 else if c = CHR 0x5C then Some CHR 0x5C
      else if c = CHR ''/'' then Some CHR ''/'' else if c = CHR ''b'' then Some CHR 0x08
      else if c = CHR ''f'' then Some CHR 0x0C else if c = CHR ''n'' then Some CHR 0x0A
      else if c = CHR ''r'' then Some CHR 0x0D else if c = CHR ''t'' then Some CHR 0x09 else None)"

text \<open>\<open>unquote\<close>, on the bytes between the quotes.\<close>

function unquote :: "string \<Rightarrow> string option" where
  "unquote [] = Some []"
| "unquote (c # cs) =
     (if c = CHR 0x5C then
        (case cs of
           [] \<Rightarrow> None
         | e # ds \<Rightarrow>
             if e = CHR ''u'' then
               (case hex4 ds of
                  None \<Rightarrow> None
                | Some r \<Rightarrow>
                    if is_surrogate r then
                      (case pair_rune r (drop 4 ds) of
                         Some r' \<Rightarrow> map_option ((@) (encode_rune r')) (unquote (drop 10 ds))
                       | None \<Rightarrow> map_option ((@) (encode_rune 65533)) (unquote (drop 4 ds)))
                    else map_option ((@) (encode_rune r)) (unquote (drop 4 ds)))
             else
               (case simple_escape e of
                  None \<Rightarrow> None
                | Some x \<Rightarrow> map_option ((#) x) (unquote ds)))
      else if c = CHR 0x22 \<or> code c < 32 then None
      else if utf8_len (c # cs) = 0 then map_option ((@) (encode_rune 65533)) (unquote cs)
      else map_option ((@) (take (utf8_len (c # cs)) (c # cs))) (unquote (drop (utf8_len (c # cs)) (c # cs))))"
  by pat_completeness auto
termination
  by (relation "measure length") auto

declare unquote.simps(2) [simp del]

text \<open>\<open>appendString\<close>: how one rune of a string is written. \<open>hex_byte\<close> gives two lower-case digits.\<close>

definition u00 :: "char \<Rightarrow> string" where
  "u00 c = CHR 0x5C # ''u00'' @ hex_byte (of_char c)"

definition quote_ascii :: "char \<Rightarrow> string" where
  "quote_ascii c =
     (if c = CHR 0x22 \<or> c = CHR 0x5C then [CHR 0x5C, c]
      else if c = CHR 0x08 then [CHR 0x5C, CHR ''b'']
      else if c = CHR 0x0C then [CHR 0x5C, CHR ''f'']
      else if c = CHR 0x0A then [CHR 0x5C, CHR ''n'']
      else if c = CHR 0x0D then [CHR 0x5C, CHR ''r'']
      else if c = CHR 0x09 then [CHR 0x5C, CHR ''t'']
      else if code c < 32 \<or> c = CHR ''<'' \<or> c = CHR ''>'' \<or> c = CHR ''&'' then u00 c
      else [c])"

fun quote_rune :: "rune \<Rightarrow> string" where
  "quote_rune (Valid s) =
     (if length s = 1 then quote_ascii (hd s)
      else if s = encode_rune 0x2028 then CHR 0x5C # ''u2028''
      else if s = encode_rune 0x2029 then CHR 0x5C # ''u2029''
      else s)"
| "quote_rune (Invalid c) = CHR 0x5C # ''ufffd''"

definition quote_body :: "string \<Rightarrow> string" where
  "quote_body s = concat (map quote_rune (runes s))"

section \<open>Numbers\<close>

text \<open>\<open>isValidNumber\<close>: the JSON grammar of number literals.\<close>

definition drop_digits :: "string \<Rightarrow> string" where
  "drop_digits s = dropWhile is_digit s"

definition num_exp :: "string \<Rightarrow> bool" where
  "num_exp s =
     (case s of
        [] \<Rightarrow> True
      | e # t \<Rightarrow>
          (e = CHR ''e'' \<or> e = CHR ''E'') \<and>
          (let u = (case t of c # u \<Rightarrow> if c = CHR ''+'' \<or> c = CHR ''-'' then u else t | [] \<Rightarrow> [])
           in u \<noteq> [] \<and> list_all is_digit u))"

definition num_frac :: "string \<Rightarrow> bool" where
  "num_frac s =
     (case s of
        c # d # t \<Rightarrow> (if c = CHR ''.'' then is_digit d \<and> num_exp (drop_digits t) else num_exp s)
      | [c] \<Rightarrow> False
      | [] \<Rightarrow> True)"

definition num_int :: "string \<Rightarrow> bool" where
  "num_int s =
     (case s of
        [] \<Rightarrow> False
      | c # t \<Rightarrow> (if c = CHR ''0'' then num_frac t else is_digit c \<and> num_frac (drop_digits t)))"

definition valid_number :: "string \<Rightarrow> bool" where
  "valid_number s = (case s of c # t \<Rightarrow> (if c = CHR ''-'' then num_int t else num_int s) | [] \<Rightarrow> False)"

section \<open>Tokens\<close>

datatype tok = TLBrace | TRBrace | TLBrack | TRBrack | TComma | TColon | TStr string | TNum string | TTrue | TFalse | TNull

datatype lexing = LStart | LStr string | LEsc string | LNum string | LWord string

definition num_char :: "char \<Rightarrow> bool" where
  "num_char c \<longleftrightarrow> is_digit c \<or> c = CHR ''-'' \<or> c = CHR ''+'' \<or> c = CHR ''.'' \<or> c = CHR ''e'' \<or> c = CHR ''E''"

definition word_char :: "char \<Rightarrow> bool" where
  "word_char c \<longleftrightarrow> 97 \<le> code c \<and> code c \<le> 122"

definition word_tok :: "string \<Rightarrow> tok option" where
  "word_tok w = (if w = ''true'' then Some TTrue else if w = ''false'' then Some TFalse
     else if w = ''null'' then Some TNull else None)"

definition punct :: "char \<Rightarrow> tok option" where
  "punct c = (if c = CHR ''{'' then Some TLBrace else if c = CHR ''}'' then Some TRBrace
     else if c = CHR ''['' then Some TLBrack else if c = CHR '']'' then Some TRBrack
     else if c = CHR '','' then Some TComma else if c = CHR '':'' then Some TColon else None)"

definition json_space :: "char \<Rightarrow> bool" where
  "json_space c \<longleftrightarrow> c = CHR '' '' \<or> c = CHR 0x09 \<or> c = CHR 0x0A \<or> c = CHR 0x0D"

definition lex_start :: "char \<Rightarrow> (tok list \<times> lexing) option" where
  "lex_start c =
     (if json_space c then Some ([], LStart)
      else if c = CHR 0x22 then Some ([], LStr [])
      else if is_digit c \<or> c = CHR ''-'' then Some ([], LNum [c])
      else if word_char c then Some ([], LWord [c])
      else map_option (\<lambda>t. ([t], LStart)) (punct c))"

definition number_tok :: "string \<Rightarrow> tok option" where
  "number_tok s = (if valid_number s then Some (TNum s) else None)"

text \<open>A token that ends where the next one starts: the byte is read again in the start state.\<close>

definition flush_tok :: "tok option \<Rightarrow> char \<Rightarrow> (tok list \<times> lexing) option" where
  "flush_tok t c =
     (case t of
        None \<Rightarrow> None
      | Some t \<Rightarrow> map_option (\<lambda>(ts, m). (t # ts, m)) (lex_start c))"

fun lex_step :: "lexing \<Rightarrow> char \<Rightarrow> (tok list \<times> lexing) option" where
  "lex_step LStart c = lex_start c"
| "lex_step (LStr acc) c =
     (if c = CHR 0x22 then map_option (\<lambda>s. ([TStr s], LStart)) (unquote (rev acc))
      else if c = CHR 0x5C then Some ([], LEsc (c # acc))
      else if code c < 32 then None
      else Some ([], LStr (c # acc)))"
| "lex_step (LEsc acc) c = Some ([], LStr (c # acc))"
| "lex_step (LNum acc) c = (if num_char c then Some ([], LNum (c # acc)) else flush_tok (number_tok (rev acc)) c)"
| "lex_step (LWord acc) c = (if word_char c then Some ([], LWord (c # acc)) else flush_tok (word_tok (rev acc)) c)"

fun lex_end :: "lexing \<Rightarrow> tok list option" where
  "lex_end LStart = Some []"
| "lex_end (LNum acc) = map_option (\<lambda>t. [t]) (number_tok (rev acc))"
| "lex_end (LWord acc) = map_option (\<lambda>t. [t]) (word_tok (rev acc))"
| "lex_end _ = None"

fun lex :: "lexing \<Rightarrow> string \<Rightarrow> tok list option" where
  "lex m [] = lex_end m"
| "lex m (c # cs) =
     (case lex_step m c of
        None \<Rightarrow> None
      | Some (ts, m') \<Rightarrow> map_option ((@) ts) (lex m' cs))"

section \<open>The parser\<close>

text \<open>The open containers, innermost first, each with what it holds so far (latest first), and what may
  come next: a value, a value or the end of an empty array, a key, a key or the end of an empty object,
  a colon, a comma or the end, or nothing but the end of the text.\<close>

datatype frame = FArr "json list" | FObj "(string \<times> json) list" | FKey string "(string \<times> json) list"

datatype expect = XValue | XValueOrEnd | XKey | XKeyOrEnd | XColon | XComma | XDone json

definition maxNestingDepth :: nat where
  "maxNestingDepth = 10000"

text \<open>A completed value goes into the innermost container.\<close>

fun deliver_value :: "json \<Rightarrow> frame list \<Rightarrow> (frame list \<times> expect) option" where
  "deliver_value v [] = Some ([], XDone v)"
| "deliver_value v (FArr vs # st) = Some (FArr (v # vs) # st, XComma)"
| "deliver_value v (FKey k ms # st) = Some (FObj ((k, v) # ms) # st, XComma)"
| "deliver_value v (FObj ms # st) = None"

definition push_frame :: "frame \<Rightarrow> expect \<Rightarrow> frame list \<Rightarrow> (frame list \<times> expect) option" where
  "push_frame f x st = (if length st < maxNestingDepth then Some (f # st, x) else None)"

fun start_value :: "tok \<Rightarrow> frame list \<Rightarrow> (frame list \<times> expect) option" where
  "start_value TLBrace st = push_frame (FObj []) XKeyOrEnd st"
| "start_value TLBrack st = push_frame (FArr []) XValueOrEnd st"
| "start_value (TStr s) st = deliver_value (JStr s) st"
| "start_value (TNum s) st = deliver_value (JNum s) st"
| "start_value TTrue st = deliver_value (JBool True) st"
| "start_value TFalse st = deliver_value (JBool False) st"
| "start_value TNull st = deliver_value JNull st"
| "start_value _ st = None"

fun end_value :: "tok \<Rightarrow> frame list \<Rightarrow> (frame list \<times> expect) option" where
  "end_value TRBrack (FArr vs # st) = deliver_value (JArr (rev vs)) st"
| "end_value TRBrace (FObj ms # st) = deliver_value (JObj (rev ms)) st"
| "end_value _ _ = None"

fun key_token :: "tok \<Rightarrow> frame list \<Rightarrow> (frame list \<times> expect) option" where
  "key_token (TStr k) (FObj ms # st) = Some (FKey k ms # st, XColon)"
| "key_token _ _ = None"

fun after_value :: "tok \<Rightarrow> frame list \<Rightarrow> (frame list \<times> expect) option" where
  "after_value TComma (FArr vs # st) = Some (FArr vs # st, XValue)"
| "after_value TComma (FObj ms # st) = Some (FObj ms # st, XKey)"
| "after_value t st = end_value t st"

fun feed :: "frame list \<times> expect \<Rightarrow> tok \<Rightarrow> (frame list \<times> expect) option" where
  "feed (st, XValue) t = start_value t st"
| "feed (st, XValueOrEnd) t = (if t = TRBrack then end_value t st else start_value t st)"
| "feed (st, XKey) t = key_token t st"
| "feed (st, XKeyOrEnd) t = (if t = TRBrace then end_value t st else key_token t st)"
| "feed (st, XColon) t = (if t = TColon then Some (st, XValue) else None)"
| "feed (st, XComma) t = after_value t st"
| "feed (st, XDone v) t = None"

fun feed_all :: "frame list \<times> expect \<Rightarrow> tok list \<Rightarrow> (frame list \<times> expect) option" where
  "feed_all c [] = Some c"
| "feed_all c (t # ts) = (case feed c t of None \<Rightarrow> None | Some c' \<Rightarrow> feed_all c' ts)"

fun finished :: "frame list \<times> expect \<Rightarrow> json option" where
  "finished ([], XDone v) = Some v"
| "finished _ = None"

definition json_parse :: "string \<Rightarrow> json option" where
  "json_parse s = Option.bind (lex LStart s) (\<lambda>ts. Option.bind (feed_all ([], XValue) ts) finished)"

section \<open>The writer\<close>

definition quoted :: "string \<Rightarrow> string" where
  "quoted s = CHR 0x22 # quote_body s @ [CHR 0x22]"

fun sep_by :: "string list \<Rightarrow> string" where
  "sep_by [] = []"
| "sep_by [x] = x"
| "sep_by (x # y # xs) = x @ CHR '','' # sep_by (y # xs)"

fun json_text :: "json \<Rightarrow> string" where
  "json_text JNull = ''null''"
| "json_text (JBool b) = (if b then ''true'' else ''false'')"
| "json_text (JNum s) = s"
| "json_text (JStr s) = quoted s"
| "json_text (JArr vs) = CHR ''['' # sep_by (map json_text vs) @ '']''"
| "json_text (JObj ms) = CHR ''{'' # sep_by (map (\<lambda>(k, v). quoted k @ CHR '':'' # json_text v) ms) @ ''}''"

end
