(* ===== verification/Go_Value.thy ===== *)
theory Go_Value
  imports Go_Map Go_Json
begin

text \<open>
  The dynamic values the engine handles: Go's \<open>any\<close> as \<open>encoding/json\<close>, \<open>yaml.v3\<close> and the
  argument decoding produce it, and the dicts (\<open>map[string]any\<close>) that travel between the bus
  and the handlers. A \<open>float64\<close> is kept as its 64 bits. \<open>GBytes None\<close> is the nil \<open>[]byte\<close>.
  \<open>GOther t\<close> is a value of any other dynamic type: one \<open>encoding/json\<close> writes as \<open>t\<close> (\<open>Some t\<close>, a
  \<open>time.Time\<close> of a YAML timestamp) or one it refuses (\<open>None\<close>, a YAML map whose keys are not all strings).
\<close>

datatype goval =
    GNil
  | GBool bool
  | GInt int
  | GFloat "64 word"
  | GStr string
  | GBytes "bytes option"
  | GSlice "goval list"
  | GMap "(string \<times> goval) list"
  | GOther "json option"

type_synonym dict = "(string, goval) gomap"

text \<open>A variable of type \<open>map[string]any\<close>, which may be the nil map; reading from nil finds nothing.\<close>

type_synonym gdict = "dict option"

definition dget :: "gdict \<Rightarrow> string \<Rightarrow> goval option" where
  "dget d k = (case d of None \<Rightarrow> None | Some m \<Rightarrow> map_of m k)"

lemma dget_simps [simp]:
  "dget None k = None"
  "dget (Some m) k = map_of m k"
  by (simp_all add: dget_def)

text \<open>Type assertions \<open>v.(T)\<close> in their two-result form, applied to a map entry that may be absent.\<close>

fun as_string :: "goval option \<Rightarrow> string option" where
  "as_string (Some (GStr s)) = Some s"
| "as_string _ = None"

fun as_slice :: "goval option \<Rightarrow> goval list option" where
  "as_slice (Some (GSlice vs)) = Some vs"
| "as_slice _ = None"

fun as_map :: "goval option \<Rightarrow> dict option" where
  "as_map (Some (GMap m)) = Some m"
| "as_map _ = None"

end
