(* ===== verification/Note.thy ===== *)
theory Note
  imports Go_Value
begin

text \<open>
  The notes of the engine-handler protocol, \<open>internal/note/note.go\<close>. The \<open>Type\<close> field of a Go note is
  stamped by the writer and selected by the reader, so a note's kind is its HOL constructor here.
\<close>

section \<open>Note types (note.go)\<close>

definition TypeInit :: string where "TypeInit = ''init''"
definition TypeDeliver :: string where "TypeDeliver = ''deliver''"
definition TypeEmitAck :: string where "TypeEmitAck = ''emit_ack''"
definition TypeShutdown :: string where "TypeShutdown = ''shutdown''"
definition TypeEmit :: string where "TypeEmit = ''emit''"
definition TypeDone :: string where "TypeDone = ''done''"
definition TypePickup :: string where "TypePickup = ''pickup''"

definition StatusOK :: string where "StatusOK = ''ok''"
definition StatusError :: string where "StatusError = ''error''"

record identity =
  id_agent :: string
  id_key :: string
  id_universe :: string

record meta =
  meta_message_id :: string
  meta_headers :: gdict

record init_note =
  in_protocol :: int
  in_identity :: identity
  in_config :: gdict
  in_inputs :: "string list"

record deliver_note =
  dn_id :: int64
  dn_selector :: string
  dn_data :: gdict
  dn_meta :: meta

record emit_ack_note =
  ea_id :: int64
  ea_status :: string
  ea_error :: string

record shutdown_note =
  sh_deadline_ms :: int64

record emit_note =
  em_id :: int64
  em_deliver :: int64
  em_selector :: string
  em_data :: gdict

record done_note =
  do_id :: int64
  do_status :: string
  do_error :: string

record pickup_note =
  pk_id :: int64

text \<open>\<open>HandlerNote\<close>: exactly one of the three pointers is set.\<close>

datatype handler_note = HEmit emit_note | HDone done_note | HPickup pickup_note

end
