(* ===== verification/Worker.thy ===== *)
theory Worker
  imports Note
begin

text \<open>
  The data of \<open>internal/worker/worker.go\<close> and what the code does to it inside its critical sections: one
  definition per locked region (or per lock-free function), a total function on the worker's state. How
  the goroutines interleave these is the step relation of \<open>Worker_Machine\<close>.

  The three callbacks \<open>Ack\<close>, \<open>Nack\<close> and \<open>Requeue\<close> of a \<open>Delivery\<close> are closures over one AMQP
  delivery, so a delivery carries that message's tag and calling one of them is recorded as
  settling the tag.
\<close>

section \<open>Data\<close>

record delivery =
  d_selector :: string
  d_data :: gdict
  d_chain :: "string list"
  d_meta :: meta
  d_tag :: nat

record config =
  c_command :: "string list"
  c_env :: "string list"
  c_identity :: identity
  c_config :: gdict
  c_inputs :: "string list"
  c_outputs :: "string list"
  c_protocol :: int
  c_timeout :: int

record inflight =
  if_chain :: "string list"
  if_tag :: nat
  if_picked :: bool
  if_timer :: bool

datatype out_note = ODeliver deliver_note | OEmitAck emit_ack_note

text \<open>The writer goroutine of a process: serving, draining after a stop, or returned (stdin closed).\<close>

datatype writer_pc = WRun | WDrain | WDone

record proc =
  p_out :: "out_note list"
  p_stop :: bool
  p_writer :: writer_pc
  p_stdin :: "out_note list"
  p_exited :: bool

record worker =
  w_idx :: nat
  w_cfg :: config
  w_outputs :: "(string, bool) gomap"
  w_cap :: int
  w_cur :: "nat option"
  w_msgs :: "(int64, inflight) gomap"
  w_nextID :: int64
  w_closing :: bool
  w_stopped :: bool

section \<open>Outcomes\<close>

text \<open>Why a message is settled, and which callback that calls.\<close>

datatype verdict = Ack | Nack | Requeue

datatype cause = DoneOk | DoneError | TimedOut | DiedPicked | DiedUnpicked | NotSent

fun verdict_of :: "cause \<Rightarrow> verdict" where
  "verdict_of DoneOk = Ack"
| "verdict_of DoneError = Nack"
| "verdict_of TimedOut = Nack"
| "verdict_of DiedPicked = Nack"
| "verdict_of DiedUnpicked = Requeue"
| "verdict_of NotSent = Requeue"

section \<open>Operations\<close>

definition newWorker :: "nat \<Rightarrow> config \<Rightarrow> int \<Rightarrow> worker" where
  "newWorker idx cfg capacity =
     \<lparr>w_idx = idx, w_cfg = cfg,
      w_outputs = mput_all (map (\<lambda>s. (s, True)) (c_outputs cfg)) [],
      w_cap = (if capacity < 1 then 1 else capacity),
      w_cur = None, w_msgs = [], w_nextID = 1, w_closing = False, w_stopped = False\<rparr>"

definition new_proc :: proc where
  "new_proc = \<lparr>p_out = [], p_stop = False, p_writer = WRun, p_stdin = [], p_exited = False\<rparr>"

text \<open>\<open>spawn\<close>'s init note and its guard on the command.\<close>

definition init_of :: "config \<Rightarrow> init_note" where
  "init_of cfg = \<lparr>in_protocol = c_protocol cfg, in_identity = c_identity cfg,
     in_config = c_config cfg, in_inputs = c_inputs cfg\<rparr>"

definition can_spawn :: "worker \<Rightarrow> bool" where
  "can_spawn w \<longleftrightarrow> c_command (w_cfg w) \<noteq> []"

definition requestStop :: "proc \<Rightarrow> proc" where
  "requestStop p = p\<lparr>p_stop := True\<rparr>"

text \<open>The capacity of a process's queue is \<open>cap+1\<close>; \<open>send\<close>'s third case and \<open>ackEmit\<close>'s first need room in it.\<close>

definition has_room :: "worker \<Rightarrow> proc \<Rightarrow> bool" where
  "has_room w p \<longleftrightarrow> int (length (p_out p)) < w_cap w + 1"

definition enqueue :: "out_note \<Rightarrow> proc \<Rightarrow> proc" where
  "enqueue o' p = p\<lparr>p_out := p_out p @ [o']\<rparr>"

definition ackEmit :: "worker \<Rightarrow> emit_ack_note \<Rightarrow> proc \<Rightarrow> proc" where
  "ackEmit w a p = (if has_room w p then enqueue (OEmitAck a) p else p)"

text \<open>\<open>onEmit\<close>: the chain is read under the lock; the rest depends on the declared outputs and on \<open>Publish\<close>.\<close>

definition emit_chain :: "worker \<Rightarrow> emit_note \<Rightarrow> string list" where
  "emit_chain w e = (case map_of (w_msgs w) (em_deliver e) of Some m \<Rightarrow> if_chain m | None \<Rightarrow> [])"

definition declared :: "worker \<Rightarrow> string \<Rightarrow> bool" where
  "declared w sel \<longleftrightarrow> map_of (w_outputs w) sel = Some True"

definition emit_ack_for :: "worker \<Rightarrow> emit_note \<Rightarrow> string option \<Rightarrow> emit_ack_note" where
  "emit_ack_for w e publish_err =
     (if \<not> declared w (em_selector e) then
        \<lparr>ea_id = em_id e, ea_status = StatusError, ea_error = ''selector not in declared outputs''\<rparr>
      else (case publish_err of
          Some err \<Rightarrow> \<lparr>ea_id = em_id e, ea_status = StatusError, ea_error = err\<rparr>
        | None \<Rightarrow> \<lparr>ea_id = em_id e, ea_status = StatusOK, ea_error = []\<rparr>))"

definition onPickup :: "int64 \<Rightarrow> worker \<Rightarrow> worker" where
  "onPickup i w =
     (case map_of (w_msgs w) i of
        Some m \<Rightarrow> w\<lparr>w_msgs := mput i (m\<lparr>if_picked := True\<rparr>) (w_msgs w)\<rparr>
      | None \<Rightarrow> w)"

text \<open>
  The locked look-up-and-delete that \<open>onDone\<close>, the failed send of \<open>Dispatch\<close> and the timeout callback
  share: whoever finds the entry removes it and owns the settlement.
\<close>

definition claim :: "int64 \<Rightarrow> worker \<Rightarrow> inflight option \<times> worker" where
  "claim i w =
     (case map_of (w_msgs w) i of
        Some m \<Rightarrow> (Some m, w\<lparr>w_msgs := mdel i (w_msgs w)\<rparr>)
      | None \<Rightarrow> (None, w))"

definition done_cause :: "done_note \<Rightarrow> cause" where
  "done_cause d = (if do_status d = StatusOK then DoneOk else DoneError)"

definition refuses :: "bool \<Rightarrow> worker \<Rightarrow> bool" where
  "refuses ctx_done w \<longleftrightarrow> w_closing w \<or> ctx_done"

definition has_slot :: "worker \<Rightarrow> bool" where
  "has_slot w \<longleftrightarrow> w_cur w \<noteq> None \<and> int (length (w_msgs w)) < w_cap w"

definition entry_for :: "worker \<Rightarrow> delivery \<Rightarrow> inflight" where
  "entry_for w d = \<lparr>if_chain = d_chain d, if_tag = d_tag d, if_picked = False,
     if_timer = (0 < c_timeout (w_cfg w))\<rparr>"

definition register :: "delivery \<Rightarrow> worker \<Rightarrow> int64 \<times> worker" where
  "register d w = (w_nextID w,
     w\<lparr>w_nextID := w_nextID w + 1, w_msgs := mput (w_nextID w) (entry_for w d) (w_msgs w)\<rparr>)"

definition deliver_of :: "int64 \<Rightarrow> delivery \<Rightarrow> deliver_note" where
  "deliver_of i d = \<lparr>dn_id = i, dn_selector = d_selector d, dn_data = d_data d, dn_meta = d_meta d\<rparr>"

text \<open>The supervisor's critical section after a process is gone: the live map is swapped for an empty one.\<close>

definition reap :: "bool \<Rightarrow> worker \<Rightarrow> (int64 \<times> inflight) list \<times> bool \<times> worker" where
  "reap ctx_done w = (w_msgs w, w_closing w \<or> ctx_done, w\<lparr>w_cur := None, w_msgs := []\<rparr>)"

definition stale_cause :: "inflight \<Rightarrow> cause" where
  "stale_cause m = (if if_picked m then DiedPicked else DiedUnpicked)"

definition outstanding :: "worker \<Rightarrow> nat" where
  "outstanding w = length (w_msgs w)"

definition beginClose :: "worker \<Rightarrow> nat option \<times> worker" where
  "beginClose w = (w_cur w, w\<lparr>w_closing := True\<rparr>)"

definition markStopped :: "worker \<Rightarrow> worker" where
  "markStopped w = w\<lparr>w_stopped := True\<rparr>"

definition shuttingDown :: "bool \<Rightarrow> worker \<Rightarrow> bool" where
  "shuttingDown ctx_done w \<longleftrightarrow> w_closing w \<or> ctx_done"

section \<open>Facts on single operations\<close>

lemma verdict_ack [simp]: "verdict_of c = Ack \<longleftrightarrow> c = DoneOk"
  by (cases c) auto

lemma verdict_requeue: "verdict_of c = Requeue \<longleftrightarrow> c = DiedUnpicked \<or> c = NotSent"
  by (cases c) auto

lemma newWorker_cap: "1 \<le> w_cap (newWorker i cfg n)"
  by (simp add: newWorker_def)

lemma declared_newWorker: "declared (newWorker i cfg n) sel \<longleftrightarrow> sel \<in> set (c_outputs cfg)"
proof -
  have "map_of (rev (map (\<lambda>s. (s, True)) ss)) sel = (if sel \<in> set ss then Some True else None)"
    for ss :: "string list"
    by (induction ss) (auto simp: map_add_def split: option.split)
  then show ?thesis
    by (simp add: declared_def newWorker_def map_of_mput_all)
qed

lemma claim_cases:
  obtains (miss) "map_of (w_msgs w) i = None" "claim i w = (None, w)"
  | (hit) m where "map_of (w_msgs w) i = Some m"
      "claim i w = (Some m, w\<lparr>w_msgs := mdel i (w_msgs w)\<rparr>)"
  by (cases "map_of (w_msgs w) i") (simp_all add: claim_def)

lemma claim_Some: "claim i w = (Some m, w') \<longleftrightarrow>
    map_of (w_msgs w) i = Some m \<and> w' = w\<lparr>w_msgs := mdel i (w_msgs w)\<rparr>"
  by (auto simp: claim_def split: option.splits)

lemma claim_None: "claim i w = (None, w') \<longleftrightarrow> map_of (w_msgs w) i = None \<and> w' = w"
  by (auto simp: claim_def split: option.splits)

lemmas claim_iffs = claim_Some claim_None

text \<open>The gate: a message that has been claimed cannot be claimed again.\<close>

lemma claim_twice:
  assumes "mwf (w_msgs w)" "claim i w = (Some m, w')"
  shows "claim i w' = (None, w')"
proof -
  have "map_of (mdel i (w_msgs w)) i = None"
    by (rule gg.claim_once [OF assms(1)])
  then show ?thesis
    using assms(2) by (auto simp: claim_iffs)
qed

end
