(* ===== verification/Machine.thy ===== *)
theory Machine
  imports Goxo_Prelude
begin

text \<open>
  What the concurrent components share: a machine given by a start state and a step relation, an
  invariant every step keeps, and a side condition \<open>within\<close> (a bound on how far a counter has
  advanced) that holds of a state whenever it holds of a later one. Inside the locale the invariant is
  carried to every reachable state; the step relations of the components interpret it.
\<close>

locale machine =
  fixes start :: "'s"
    and step :: "'s \<Rightarrow> 's \<Rightarrow> bool"
    and within :: "'s \<Rightarrow> bool"
    and inv :: "'s \<Rightarrow> bool"
  assumes inv_start: "inv start"
    and inv_step: "step s t \<Longrightarrow> within t \<Longrightarrow> inv s \<Longrightarrow> inv t"
    and within_back: "step s t \<Longrightarrow> within t \<Longrightarrow> within s"
begin

lemma reach_inv: "step\<^sup>*\<^sup>* start s \<Longrightarrow> within s \<Longrightarrow> inv s"
proof (induction rule: rtranclp_induct)
  case base
  show ?case by (rule inv_start)
next
  case (step s t)
  then show ?case
    using inv_step within_back by blast
qed

lemma run_inv: "step\<^sup>*\<^sup>* s t \<Longrightarrow> within t \<Longrightarrow> inv s \<Longrightarrow> inv t"
proof (induction rule: rtranclp_induct)
  case (step t u)
  then show ?case
    using inv_step within_back by blast
qed

end

text \<open>A machine with a second invariant whose preservation may use the first one.\<close>

locale machine_plus = machine start step within inv
  for start :: "'s" and step :: "'s \<Rightarrow> 's \<Rightarrow> bool" and within :: "'s \<Rightarrow> bool" and inv :: "'s \<Rightarrow> bool" +
  fixes more :: "'s \<Rightarrow> bool"
  assumes more_start: "more start"
    and more_step: "step s t \<Longrightarrow> within t \<Longrightarrow> inv s \<Longrightarrow> more s \<Longrightarrow> more t"
begin

lemma reach_more: "step\<^sup>*\<^sup>* start s \<Longrightarrow> within s \<Longrightarrow> more s"
proof (induction rule: rtranclp_induct)
  case base
  show ?case by (rule more_start)
next
  case (step s t)
  then show ?case
    using more_step within_back reach_inv by blast
qed

end

end
