(* ===== verification/Worker_Machine.thy ===== *)
theory Worker_Machine
  imports Worker Machine
begin

text \<open>
  One worker with its goroutines, \<open>internal/worker/worker.go\<close>: the supervisor (\<open>run\<close>, \<open>readLoop\<close>, \<open>onEmit\<close>,
  \<open>onDone\<close>), the writer of each process (\<open>writeLoop\<close>), the timeout callbacks (\<open>armTimeout\<close>), the one
  \<open>Dispatch\<close> call the serial consumer has open, and the shutdown thread (\<open>beginClose\<close>, \<open>kill\<close>). Each has a
  program counter; a step is one goroutine moving through one critical section, channel operation or
  callback. A loop around \<open>cond.Wait\<close> is a step guarded by the loop's condition, so that every wake-up the code
  broadcasts is taken as delivered. \<open>spawn\<close> is one step here; \<open>Worker_Spawn\<close> takes it apart. The handler process is the
  environment: it may send any note at any time and exit at any time.

  The fields after \<open>s_ctx\<close> record the history for the theorems and no step reads them.
\<close>

section \<open>State\<close>

datatype sup_pc =
    SSpawn
  | SBackoff
  | SRead nat
  | SEmit nat emit_note "string list"
  | SSettle nat int64 nat cause
  | SEnded nat
  | SWait nat
  | SStale "(int64 \<times> inflight) list" bool
  | SStopped

datatype disp_pc =
    DIdle
  | DWait delivery
  | DSend int64 nat delivery
  | DReclaim int64 delivery
  | DRequeue int64 delivery

datatype timer = TArmed | TFiring | TNack nat

datatype closer_pc = CIdle | CStop "nat option" | CDone | CKilled

record sys =
  s_w :: worker
  s_procs :: "proc list"
  s_sup :: sup_pc
  s_disp :: disp_pc
  s_timers :: "(int64, timer) gomap"
  s_closer :: closer_pc
  s_ctx :: bool
  s_given :: "(int64 \<times> delivery) list"
  s_settled :: "(int64 \<times> nat \<times> cause) list"
  s_reads :: "handler_note list"
  s_pickups :: "int64 list"
  s_published :: "(int64 \<times> string list \<times> string \<times> gdict) list"
  s_refused :: "nat list"
  s_queued :: "out_note list"

definition init_sys :: "nat \<Rightarrow> config \<Rightarrow> int \<Rightarrow> sys" where
  "init_sys idx cfg capacity =
     \<lparr>s_w = newWorker idx cfg capacity, s_procs = [], s_sup = SSpawn, s_disp = DIdle,
      s_timers = [], s_closer = CIdle, s_ctx = False,
      s_given = [], s_settled = [], s_reads = [], s_pickups = [], s_published = [], s_refused = [],
      s_queued = []\<rparr>"

section \<open>Effects on the state\<close>

definition on_proc :: "nat \<Rightarrow> (proc \<Rightarrow> proc) \<Rightarrow> sys \<Rightarrow> sys" where
  "on_proc pid f s = s\<lparr>s_procs := (s_procs s)[pid := f (s_procs s ! pid)]\<rparr>"

definition spawned :: "sys \<Rightarrow> sys" where
  "spawned s = s\<lparr>s_procs := s_procs s @ [new_proc],
     s_w := (s_w s)\<lparr>w_cur := Some (length (s_procs s))\<rparr>,
     s_sup := SRead (length (s_procs s))\<rparr>"

definition stopped :: "sys \<Rightarrow> sys" where
  "stopped s = s\<lparr>s_w := markStopped (s_w s), s_sup := SStopped\<rparr>"

text \<open>\<open>time.Timer.Stop\<close>: cancels a timer that has not fired; one whose callback is running goes on.\<close>

definition stop_timer :: "int64 \<Rightarrow> (int64, timer) gomap \<Rightarrow> (int64, timer) gomap" where
  "stop_timer i ts = (if map_of ts i = Some TArmed then mdel i ts else ts)"

definition release_timer :: "int64 \<Rightarrow> inflight \<Rightarrow> sys \<Rightarrow> sys" where
  "release_timer i m s = (if if_timer m then s\<lparr>s_timers := stop_timer i (s_timers s)\<rparr> else s)"

definition settle :: "int64 \<Rightarrow> nat \<Rightarrow> cause \<Rightarrow> sys \<Rightarrow> sys" where
  "settle i tag c s = s\<lparr>s_settled := s_settled s @ [(i, tag, c)]\<rparr>"

definition registered :: "delivery \<Rightarrow> sys \<Rightarrow> sys" where
  "registered d s =
     (let (i, w') = register d (s_w s)
      in s\<lparr>s_w := w', s_given := s_given s @ [(i, d)],
           s_timers := (if 0 < c_timeout (w_cfg (s_w s)) then mput i TArmed (s_timers s) else s_timers s),
           s_disp := DSend i (the (w_cur (s_w s))) d\<rparr>)"

definition sent :: "int64 \<Rightarrow> nat \<Rightarrow> delivery \<Rightarrow> sys \<Rightarrow> sys" where
  "sent i pid d s =
     (on_proc pid (enqueue (ODeliver (deliver_of i d))) s)
       \<lparr>s_disp := DIdle, s_queued := s_queued s @ [ODeliver (deliver_of i d)]\<rparr>"

section \<open>Steps\<close>

inductive wstep :: "sys \<Rightarrow> sys \<Rightarrow> bool" where
  \<comment> \<open>the supervisor\<close>
  spawn_ok: "s_sup s = SSpawn \<Longrightarrow> can_spawn (s_w s) \<Longrightarrow> wstep s (spawned s)"
| spawn_fail_stop: "s_sup s = SSpawn \<Longrightarrow> shuttingDown (s_ctx s) (s_w s) \<Longrightarrow> wstep s (stopped s)"
| spawn_fail_retry: "s_sup s = SSpawn \<Longrightarrow> \<not> shuttingDown (s_ctx s) (s_w s) \<Longrightarrow>
    wstep s (s\<lparr>s_sup := SBackoff\<rparr>)"
| backoff_over: "s_sup s = SBackoff \<Longrightarrow> wstep s (s\<lparr>s_sup := SSpawn\<rparr>)"
| backoff_cancelled: "s_sup s = SBackoff \<Longrightarrow> s_ctx s \<Longrightarrow> wstep s (stopped s)"
| read_emit: "s_sup s = SRead pid \<Longrightarrow>
    wstep s (s\<lparr>s_sup := SEmit pid e (emit_chain (s_w s) e), s_reads := s_reads s @ [HEmit e]\<rparr>)"
| emit_undeclared: "s_sup s = SEmit pid e chain \<Longrightarrow> \<not> declared (s_w s) (em_selector e) \<Longrightarrow>
    wstep s ((on_proc pid (ackEmit (s_w s) (emit_ack_for (s_w s) e None)) s)\<lparr>s_sup := SRead pid\<rparr>)"
| emit_failed: "s_sup s = SEmit pid e chain \<Longrightarrow> declared (s_w s) (em_selector e) \<Longrightarrow>
    wstep s ((on_proc pid (ackEmit (s_w s) (emit_ack_for (s_w s) e (Some err))) s)\<lparr>s_sup := SRead pid\<rparr>)"
| emit_published: "s_sup s = SEmit pid e chain \<Longrightarrow> declared (s_w s) (em_selector e) \<Longrightarrow>
    wstep s ((on_proc pid (ackEmit (s_w s) (emit_ack_for (s_w s) e None)) s)
      \<lparr>s_sup := SRead pid, s_published := s_published s @ [(em_deliver e, chain, em_selector e, em_data e)]\<rparr>)"
| read_done_hit: "s_sup s = SRead pid \<Longrightarrow> claim (do_id d) (s_w s) = (Some m, w') \<Longrightarrow>
    wstep s ((release_timer (do_id d) m s)
      \<lparr>s_w := w', s_reads := s_reads s @ [HDone d],
       s_sup := SSettle pid (do_id d) (if_tag m) (done_cause d)\<rparr>)"
| read_done_miss: "s_sup s = SRead pid \<Longrightarrow> claim (do_id d) (s_w s) = (None, w') \<Longrightarrow>
    wstep s (s\<lparr>s_reads := s_reads s @ [HDone d]\<rparr>)"
| done_settled: "s_sup s = SSettle pid i tag c \<Longrightarrow> wstep s ((settle i tag c s)\<lparr>s_sup := SRead pid\<rparr>)"
| read_pickup: "s_sup s = SRead pid \<Longrightarrow>
    wstep s (s\<lparr>s_w := onPickup (pk_id k) (s_w s), s_reads := s_reads s @ [HPickup k],
      s_pickups := s_pickups s @ (if map_of (w_msgs (s_w s)) (pk_id k) = None then [] else [pk_id k])\<rparr>)"
| read_end: "s_sup s = SRead pid \<Longrightarrow> wstep s (s\<lparr>s_sup := SEnded pid\<rparr>)"
| ended_stop: "s_sup s = SEnded pid \<Longrightarrow> wstep s ((on_proc pid requestStop s)\<lparr>s_sup := SWait pid\<rparr>)"
| waited: "s_sup s = SWait pid \<Longrightarrow> p_exited (s_procs s ! pid) \<Longrightarrow>
    reap (s_ctx s) (s_w s) = (stale, closing, w') \<Longrightarrow>
    wstep s (s\<lparr>s_w := w', s_sup := SStale stale closing\<rparr>)"
| stale_one: "s_sup s = SStale (xs @ (i, m) # ys) closing \<Longrightarrow>
    wstep s ((settle i (if_tag m) (stale_cause m) (release_timer i m s))\<lparr>s_sup := SStale (xs @ ys) closing\<rparr>)"
| stale_respawn: "s_sup s = SStale [] False \<Longrightarrow> wstep s (s\<lparr>s_sup := SSpawn\<rparr>)"
| stale_stop: "s_sup s = SStale [] True \<Longrightarrow> wstep s (stopped s)"
  \<comment> \<open>the writer of a process\<close>
| write_note: "pid < length (s_procs s) \<Longrightarrow> p_out (s_procs s ! pid) = o' # os \<Longrightarrow>
    p_writer (s_procs s ! pid) \<noteq> WDone \<Longrightarrow>
    wstep s (on_proc pid (\<lambda>p. p\<lparr>p_out := os, p_stdin := p_stdin p @ [o']\<rparr>) s)"
| write_fails: "pid < length (s_procs s) \<Longrightarrow> p_out (s_procs s ! pid) = o' # os \<Longrightarrow>
    p_writer (s_procs s ! pid) \<noteq> WDone \<Longrightarrow>
    wstep s (on_proc pid (\<lambda>p. p\<lparr>p_out := os\<rparr>) s)"
| writer_stop: "pid < length (s_procs s) \<Longrightarrow> p_writer (s_procs s ! pid) = WRun \<Longrightarrow>
    p_stop (s_procs s ! pid) \<Longrightarrow> wstep s (on_proc pid (\<lambda>p. p\<lparr>p_writer := WDrain\<rparr>) s)"
| writer_done: "pid < length (s_procs s) \<Longrightarrow> p_writer (s_procs s ! pid) = WDrain \<Longrightarrow>
    p_out (s_procs s ! pid) = [] \<Longrightarrow> wstep s (on_proc pid (\<lambda>p. p\<lparr>p_writer := WDone\<rparr>) s)"
  \<comment> \<open>timeouts\<close>
| timer_fires: "map_of (s_timers s) i = Some TArmed \<Longrightarrow>
    wstep s (s\<lparr>s_timers := mput i TFiring (s_timers s)\<rparr>)"
| timeout_hit: "map_of (s_timers s) i = Some TFiring \<Longrightarrow> claim i (s_w s) = (Some m, w') \<Longrightarrow>
    wstep s (s\<lparr>s_w := w', s_timers := mput i (TNack (if_tag m)) (s_timers s)\<rparr>)"
| timeout_miss: "map_of (s_timers s) i = Some TFiring \<Longrightarrow> claim i (s_w s) = (None, w') \<Longrightarrow>
    wstep s (s\<lparr>s_timers := mdel i (s_timers s)\<rparr>)"
| timeout_settled: "map_of (s_timers s) i = Some (TNack tag) \<Longrightarrow>
    wstep s ((settle i tag TimedOut s)\<lparr>s_timers := mdel i (s_timers s)\<rparr>)"
  \<comment> \<open>\<open>Dispatch\<close>\<close>
| disp_call: "s_disp s = DIdle \<Longrightarrow> wstep s (s\<lparr>s_disp := DWait d\<rparr>)"
| disp_refuse: "s_disp s = DWait d \<Longrightarrow> refuses (s_ctx s) (s_w s) \<Longrightarrow>
    wstep s (s\<lparr>s_disp := DIdle, s_refused := s_refused s @ [d_tag d]\<rparr>)"
| disp_register: "s_disp s = DWait d \<Longrightarrow> \<not> refuses (s_ctx s) (s_w s) \<Longrightarrow> has_slot (s_w s) \<Longrightarrow>
    wstep s (registered d s)"
| disp_sent: "s_disp s = DSend i pid d \<Longrightarrow> has_room (s_w s) (s_procs s ! pid) \<Longrightarrow> wstep s (sent i pid d s)"
| disp_unsent: "s_disp s = DSend i pid d \<Longrightarrow> p_stop (s_procs s ! pid) \<or> s_ctx s \<Longrightarrow>
    wstep s (s\<lparr>s_disp := DReclaim i d\<rparr>)"
| disp_reclaim_hit: "s_disp s = DReclaim i d \<Longrightarrow> claim i (s_w s) = (Some m, w') \<Longrightarrow>
    wstep s ((release_timer i m s)\<lparr>s_w := w', s_disp := DRequeue i d\<rparr>)"
| disp_reclaim_miss: "s_disp s = DReclaim i d \<Longrightarrow> claim i (s_w s) = (None, w') \<Longrightarrow>
    wstep s (s\<lparr>s_disp := DIdle\<rparr>)"
| disp_requeue: "s_disp s = DRequeue i d \<Longrightarrow> wstep s ((settle i (d_tag d) NotSent s)\<lparr>s_disp := DIdle\<rparr>)"
  \<comment> \<open>shutdown, cancellation, and the process itself\<close>
| close_begin: "s_closer s = CIdle \<Longrightarrow> beginClose (s_w s) = (cur, w') \<Longrightarrow>
    wstep s (s\<lparr>s_w := w', s_closer := CStop cur\<rparr>)"
| close_stop: "s_closer s = CStop (Some pid) \<Longrightarrow>
    wstep s ((on_proc pid requestStop s)\<lparr>s_closer := CDone\<rparr>)"
| close_none: "s_closer s = CStop None \<Longrightarrow> wstep s (s\<lparr>s_closer := CDone\<rparr>)"
| kill_live: "s_closer s = CDone \<Longrightarrow> w_cur (s_w s) = Some pid \<Longrightarrow>
    wstep s ((on_proc pid (\<lambda>p. p\<lparr>p_exited := True\<rparr>) s)\<lparr>s_closer := CKilled\<rparr>)"
| kill_none: "s_closer s = CDone \<Longrightarrow> w_cur (s_w s) = None \<Longrightarrow> wstep s (s\<lparr>s_closer := CKilled\<rparr>)"
| ctx_cancel: "wstep s (s\<lparr>s_ctx := True\<rparr>)"
| proc_exit: "pid < length (s_procs s) \<Longrightarrow> wstep s (on_proc pid (\<lambda>p. p\<lparr>p_exited := True\<rparr>) s)"

definition reachable :: "nat \<Rightarrow> config \<Rightarrow> int \<Rightarrow> sys \<Rightarrow> bool" where
  "reachable idx cfg capacity s \<longleftrightarrow> wstep\<^sup>*\<^sup>* (init_sys idx cfg capacity) s"

end
