(* ===== verification/Worker_Invariant.thy ===== *)
theory Worker_Invariant
  imports Worker_Machine
begin

text \<open>
  The invariant of the worker machine. Its core is a conservation law: at every moment, the messages
  handed to the worker are exactly those still in its in-flight map, those some goroutine has claimed
  and is about to settle, and those already settled, each counted once.
\<close>

section \<open>Frame facts\<close>

lemma on_proc_frame [simp]:
  "s_w (on_proc pid f s) = s_w s" "s_sup (on_proc pid f s) = s_sup s"
  "s_disp (on_proc pid f s) = s_disp s" "s_timers (on_proc pid f s) = s_timers s"
  "s_closer (on_proc pid f s) = s_closer s" "s_ctx (on_proc pid f s) = s_ctx s"
  "s_given (on_proc pid f s) = s_given s" "s_settled (on_proc pid f s) = s_settled s"
  "s_reads (on_proc pid f s) = s_reads s" "s_pickups (on_proc pid f s) = s_pickups s"
  "s_published (on_proc pid f s) = s_published s" "s_refused (on_proc pid f s) = s_refused s"
  "s_queued (on_proc pid f s) = s_queued s"
  "s_procs (on_proc pid f s) = (s_procs s)[pid := f (s_procs s ! pid)]"
  by (simp_all add: on_proc_def)

lemma release_timer_frame [simp]:
  "s_w (release_timer i m s) = s_w s" "s_sup (release_timer i m s) = s_sup s"
  "s_disp (release_timer i m s) = s_disp s" "s_procs (release_timer i m s) = s_procs s"
  "s_closer (release_timer i m s) = s_closer s" "s_ctx (release_timer i m s) = s_ctx s"
  "s_given (release_timer i m s) = s_given s" "s_settled (release_timer i m s) = s_settled s"
  "s_reads (release_timer i m s) = s_reads s" "s_pickups (release_timer i m s) = s_pickups s"
  "s_published (release_timer i m s) = s_published s" "s_refused (release_timer i m s) = s_refused s"
  "s_queued (release_timer i m s) = s_queued s"
  "s_timers (release_timer i m s) = (if if_timer m then stop_timer i (s_timers s) else s_timers s)"
  by (simp_all add: release_timer_def)

lemma settle_frame [simp]:
  "s_w (settle i tag c s) = s_w s" "s_sup (settle i tag c s) = s_sup s"
  "s_disp (settle i tag c s) = s_disp s" "s_procs (settle i tag c s) = s_procs s"
  "s_closer (settle i tag c s) = s_closer s" "s_ctx (settle i tag c s) = s_ctx s"
  "s_given (settle i tag c s) = s_given s" "s_timers (settle i tag c s) = s_timers s"
  "s_reads (settle i tag c s) = s_reads s" "s_pickups (settle i tag c s) = s_pickups s"
  "s_published (settle i tag c s) = s_published s" "s_refused (settle i tag c s) = s_refused s"
  "s_queued (settle i tag c s) = s_queued s"
  "s_settled (settle i tag c s) = s_settled s @ [(i, tag, c)]"
  by (simp_all add: settle_def)

lemmas step_defs = spawned_def stopped_def registered_def sent_def register_def reap_def beginClose_def
  markStopped_def claim_iffs

section \<open>Who holds a message\<close>

fun entry_of :: "int64 \<times> inflight \<Rightarrow> int64 \<times> nat" where
  "entry_of (i, m) = (i, if_tag m)"

fun given_entry :: "int64 \<times> delivery \<Rightarrow> int64 \<times> nat" where
  "given_entry (i, d) = (i, d_tag d)"

fun settled_entry :: "int64 \<times> nat \<times> cause \<Rightarrow> int64 \<times> nat" where
  "settled_entry (i, tag, c) = (i, tag)"

fun sup_holds :: "sup_pc \<Rightarrow> (int64 \<times> nat) multiset" where
  "sup_holds (SSettle pid i tag c) = {#(i, tag)#}"
| "sup_holds (SStale stale closing) = image_mset entry_of (mset stale)"
| "sup_holds _ = {#}"

fun timer_holds :: "int64 \<times> timer \<Rightarrow> (int64 \<times> nat) multiset" where
  "timer_holds (i, TNack tag) = {#(i, tag)#}"
| "timer_holds _ = {#}"

definition timers_hold :: "(int64, timer) gomap \<Rightarrow> (int64 \<times> nat) multiset" where
  "timers_hold ts = sum_mset (image_mset timer_holds (mset ts))"

fun disp_holds :: "disp_pc \<Rightarrow> (int64 \<times> nat) multiset" where
  "disp_holds (DRequeue i d) = {#(i, d_tag d)#}"
| "disp_holds _ = {#}"

definition held :: "sys \<Rightarrow> (int64 \<times> nat) multiset" where
  "held s = image_mset entry_of (mset (w_msgs (s_w s))) + sup_holds (s_sup s)
     + timers_hold (s_timers s) + disp_holds (s_disp s)"

definition conserved :: "sys \<Rightarrow> bool" where
  "conserved s \<longleftrightarrow>
     image_mset given_entry (mset (s_given s)) = held s + image_mset settled_entry (mset (s_settled s))"

definition wf_maps :: "sys \<Rightarrow> bool" where
  "wf_maps s \<longleftrightarrow> mwf (w_msgs (s_w s)) \<and> mwf (s_timers s)"

definition nth_id :: "nat \<Rightarrow> int64" where
  "nth_id n = word_of_nat n"

definition issued :: "nat \<Rightarrow> int64 list" where
  "issued n = map nth_id [1..<Suc n]"

definition ids_in_order :: "sys \<Rightarrow> bool" where
  "ids_in_order s \<longleftrightarrow> map fst (s_given s) = issued (length (s_given s)) \<and>
     w_nextID (s_w s) = nth_id (Suc (length (s_given s)))"

definition timers_known :: "sys \<Rightarrow> bool" where
  "timers_known s \<longleftrightarrow> fst ` set (s_timers s) \<subseteq> fst ` set (s_given s)"

definition within_cap :: "sys \<Rightarrow> bool" where
  "within_cap s \<longleftrightarrow> int (length (w_msgs (s_w s))) \<le> w_cap (s_w s)"

fun live_pid :: "sup_pc \<Rightarrow> nat option" where
  "live_pid (SRead pid) = Some pid"
| "live_pid (SEmit pid e chain) = Some pid"
| "live_pid (SSettle pid i tag c) = Some pid"
| "live_pid (SEnded pid) = Some pid"
| "live_pid (SWait pid) = Some pid"
| "live_pid _ = None"

definition cur_agrees :: "sys \<Rightarrow> bool" where
  "cur_agrees s \<longleftrightarrow> w_cur (s_w s) = live_pid (s_sup s) \<and>
     (w_cur (s_w s) = None \<longrightarrow> w_msgs (s_w s) = []) \<and>
     (\<forall>pid. w_cur (s_w s) = Some pid \<longrightarrow> pid < length (s_procs s))"

fun disp_entry :: "disp_pc \<Rightarrow> (int64 \<times> delivery) option" where
  "disp_entry (DSend i pid d) = Some (i, d)"
| "disp_entry (DReclaim i d) = Some (i, d)"
| "disp_entry (DRequeue i d) = Some (i, d)"
| "disp_entry _ = None"

definition disp_known :: "sys \<Rightarrow> bool" where
  "disp_known s \<longleftrightarrow> (case disp_entry (s_disp s) of None \<Rightarrow> True | Some e \<Rightarrow> e \<in> set (s_given s))"

definition winv :: "sys \<Rightarrow> bool" where
  "winv s \<longleftrightarrow> conserved s \<and> wf_maps s \<and> ids_in_order s \<and> timers_known s \<and> within_cap s \<and>
     cur_agrees s \<and> disp_known s"

text \<open>
  Ids are 64-bit and wrap around: the invariant holds as long as fewer than \<open>2 ^ 64\<close> messages have been
  handed to the worker, which keeps the ids in use distinct.
\<close>

definition few_ids :: "sys \<Rightarrow> bool" where
  "few_ids s \<longleftrightarrow> length (s_given s) < 2 ^ 64"

section \<open>Small facts the preservation proofs share\<close>

lemma timers_hold_simps [simp]:
  "timers_hold [] = {#}"
  by (simp add: timers_hold_def)

lemma timers_hold_fresh:
  "map_of ts i = None \<Longrightarrow> timers_hold (mput i t ts) = timer_holds (i, t) + timers_hold ts"
  by (simp add: timers_hold_def mset_mput_fresh)

lemma timers_hold_del:
  "map_of ts i = Some t \<Longrightarrow> timers_hold ts = timer_holds (i, t) + timers_hold (mdel i ts)"
  by (drule mset_mdel_present) (simp add: timers_hold_def)

lemma timers_hold_replace:
  "mwf ts \<Longrightarrow> map_of ts i = Some t0 \<Longrightarrow>
    timers_hold (mput i t ts) = timer_holds (i, t) + timers_hold (mdel i ts)"
  by (simp add: timers_hold_def mset_mput_replace)

lemma timers_hold_stop [simp]: "timers_hold (stop_timer i ts) = timers_hold ts"
  using timers_hold_del [of ts i TArmed] by (simp add: stop_timer_def)

lemma mwf_stop_timer [simp]: "mwf ts \<Longrightarrow> mwf (stop_timer i ts)"
  by (simp add: stop_timer_def)

lemma keys_stop_timer: "fst ` set (stop_timer i ts) \<subseteq> fst ` set ts"
  using set_mdel_subset [of i ts] by (auto simp: stop_timer_def)

lemma onPickup_frame [simp]:
  "w_cap (onPickup i w) = w_cap w" "w_cur (onPickup i w) = w_cur w" "w_cfg (onPickup i w) = w_cfg w"
  "w_nextID (onPickup i w) = w_nextID w" "w_closing (onPickup i w) = w_closing w"
  "w_outputs (onPickup i w) = w_outputs w" "w_stopped (onPickup i w) = w_stopped w"
  by (simp_all add: onPickup_def split: option.split)

lemma onPickup_entries:
  assumes "mwf (w_msgs w)"
  shows "image_mset entry_of (mset (w_msgs (onPickup i w))) = image_mset entry_of (mset (w_msgs w))"
proof (cases "map_of (w_msgs w) i")
  case (Some m)
  then show ?thesis
    using assms mset_mdel_present [OF Some] by (simp add: onPickup_def mset_mput_replace)
qed (simp add: onPickup_def)

lemma onPickup_mwf [simp]: "mwf (w_msgs w) \<Longrightarrow> mwf (w_msgs (onPickup i w))"
  by (simp add: onPickup_def split: option.split)

lemma onPickup_length [simp]: "mwf (w_msgs w) \<Longrightarrow> length (w_msgs (onPickup i w)) = length (w_msgs w)"
  using onPickup_entries [of w i] by (metis size_image_mset size_mset)

lemma onPickup_empty: "w_msgs w = [] \<Longrightarrow> w_msgs (onPickup i w) = []"
  by (simp add: onPickup_def)

lemma held_in_given:
  assumes "conserved s" "e \<in># held s"
  shows "e \<in> given_entry ` set (s_given s)"
proof -
  have "e \<in># image_mset given_entry (mset (s_given s))"
    using assms by (simp add: conserved_def)
  then show ?thesis
    by simp
qed

lemma settled_in_given:
  assumes "conserved s" "(i, tag, c) \<in> set (s_settled s)"
  shows "(i, tag) \<in> given_entry ` set (s_given s)"
proof -
  have "settled_entry (i, tag, c) \<in># image_mset settled_entry (mset (s_settled s))"
    using assms(2) by (metis image_eqI set_image_mset set_mset_mset)
  then have "(i, tag) \<in># image_mset given_entry (mset (s_given s))"
    using assms(1) by (simp add: conserved_def)
  then show ?thesis
    by simp
qed

lemma given_entry_fst: "e \<in> given_entry ` set gs \<Longrightarrow> fst e \<in> fst ` set gs"
  by force

lemma msgs_in_given:
  assumes "conserved s" "map_of (w_msgs (s_w s)) i = Some m"
  shows "(i, if_tag m) \<in> given_entry ` set (s_given s)"
proof -
  have "entry_of (i, m) \<in># image_mset entry_of (mset (w_msgs (s_w s)))"
    using map_of_SomeD [OF assms(2)] by (metis image_eqI set_image_mset set_mset_mset)
  then show ?thesis
    using assms(1) by (intro held_in_given) (auto simp: held_def)
qed

lemma issued_0 [simp]: "issued 0 = []"
  by (simp add: issued_def)

lemma issued_Suc [simp]: "issued (Suc n) = issued n @ [nth_id (Suc n)]"
  by (simp add: issued_def)

lemma nth_id_Suc: "nth_id n + 1 = nth_id (Suc n)"
  by (simp add: nth_id_def add.commute)

lemma nth_id_1 [simp]: "nth_id (Suc 0) = 1"
  by (simp add: nth_id_def)

lemma distinct_issued:
  assumes "n < 2 ^ 64"
  shows "distinct (issued n)"
proof -
  have "a = b" if "nth_id a = nth_id b" "a < Suc n" "b < Suc n" for a b
    using that assms by (simp add: nth_id_def word_of_nat_eq_iff take_bit_nat_eq_self)
  then have "inj_on nth_id {1..<Suc n}"
    by (intro inj_onI) (simp only: atLeastLessThan_iff)
  then show ?thesis
    by (simp only: issued_def distinct_map distinct_upt set_upt)
qed

lemma ids_distinct:
  assumes "ids_in_order s" "few_ids s"
  shows "distinct (map fst (s_given s))"
  using assms by (simp add: ids_in_order_def few_ids_def distinct_issued)

lemma next_id_fresh:
  assumes "ids_in_order s" "Suc (length (s_given s)) < 2 ^ 64"
  shows "w_nextID (s_w s) \<notin> fst ` set (s_given s)"
proof -
  have "distinct (issued (Suc (length (s_given s))))"
    using assms(2) by (rule distinct_issued)
  then have "nth_id (Suc (length (s_given s))) \<notin> set (map fst (s_given s))"
    using assms(1) by (simp add: ids_in_order_def)
  then show ?thesis
    using assms(1) by (simp add: ids_in_order_def)
qed

lemma next_id_not_live:
  assumes "ids_in_order s" "conserved s" "Suc (length (s_given s)) < 2 ^ 64"
  shows "map_of (w_msgs (s_w s)) (w_nextID (s_w s)) = None"
  using next_id_fresh [OF assms(1,3)] msgs_in_given [OF assms(2)] given_entry_fst
  by (metis fst_conv not_None_eq)

lemma next_id_not_timed:
  assumes "ids_in_order s" "timers_known s" "Suc (length (s_given s)) < 2 ^ 64"
  shows "map_of (s_timers s) (w_nextID (s_w s)) = None"
  using next_id_fresh [OF assms(1,3)] assms(2) by (auto simp: map_of_eq_None_iff timers_known_def)

text \<open>An id names one message: what a live entry and an open \<open>Dispatch\<close> say of the same id agrees.\<close>

lemma given_unique:
  assumes "ids_in_order s" "few_ids s" "(i, d) \<in> set (s_given s)" "(i, d') \<in> set (s_given s)"
  shows "d = d'"
  using ids_distinct [OF assms(1,2)] assms(3,4) by (auto dest: eq_key_imp_eq_value)

lemma disp_tag_agrees:
  assumes "winv s" "few_ids s" "disp_entry (s_disp s) = Some (i, d)"
    and "map_of (w_msgs (s_w s)) i = Some m"
  shows "if_tag m = d_tag d"
proof -
  have inv: "conserved s" "ids_in_order s" "(i, d) \<in> set (s_given s)"
    using assms(1,3) by (auto simp: winv_def disp_known_def)
  obtain d' where "(i, d') \<in> set (s_given s)" "if_tag m = d_tag d'"
    using msgs_in_given [OF inv(1) assms(4)] by auto
  then show ?thesis
    using given_unique [OF inv(2) assms(2) inv(3)] by blast
qed

section \<open>Every step keeps the invariant\<close>

lemma init_winv: "winv (init_sys idx cfg capacity)"
  by (simp add: winv_def conserved_def held_def wf_maps_def ids_in_order_def timers_known_def
      within_cap_def cur_agrees_def disp_known_def init_sys_def newWorker_def)

lemma step_given: "wstep s t \<Longrightarrow> length (s_given s) \<le> length (s_given t)"
  by (erule wstep.cases) (simp_all add: step_defs)

lemma step_few_ids: "wstep s t \<Longrightarrow> few_ids t \<Longrightarrow> few_ids s"
  using step_given by (fastforce simp: few_ids_def)

lemma step_wf_maps: "wstep s t \<Longrightarrow> winv s \<Longrightarrow> wf_maps t"
  by (erule wstep.cases) (auto simp: winv_def wf_maps_def step_defs)

lemma step_ids_in_order: "wstep s t \<Longrightarrow> winv s \<Longrightarrow> ids_in_order t"
  by (erule wstep.cases) (auto simp: winv_def ids_in_order_def step_defs nth_id_Suc onPickup_def
      split: option.split)

lemma step_cur_agrees: "wstep s t \<Longrightarrow> winv s \<Longrightarrow> cur_agrees t"
  by (erule wstep.cases) (auto simp: winv_def cur_agrees_def step_defs has_slot_def onPickup_empty
      split: option.splits)

lemma step_within_cap:
  assumes "wstep s t" "winv s" "few_ids t"
  shows "within_cap t"
  using assms(1)
proof (cases rule: wstep.cases)
  case (disp_register d)
  then have "map_of (w_msgs (s_w s)) (w_nextID (s_w s)) = None"
    using assms(2,3) by (intro next_id_not_live) (auto simp: winv_def few_ids_def step_defs)
  with disp_register show ?thesis
    by (simp add: within_cap_def step_defs has_slot_def length_mput_fresh)
qed (use assms(2) in \<open>auto simp: winv_def within_cap_def step_defs wf_maps_def
    intro: order_trans [OF of_nat_mono [OF length_mdel_le]]\<close>)

lemma timers_known_mono:
  assumes "timers_known s" "fst ` set (s_timers t) \<subseteq> fst ` set (s_timers s)" "s_given t = s_given s"
  shows "timers_known t"
  using assms by (auto simp: timers_known_def)

lemma step_timers_known:
  assumes "wstep s t" "winv s"
  shows "timers_known t"
proof -
  have known: "timers_known s"
    using assms(2) by (simp add: winv_def)
  note keep = timers_known_mono [OF known]
  from assms(1) show ?thesis
  proof (cases rule: wstep.cases)
    case (disp_register d)
    have "fst ` set (s_timers t) \<subseteq> insert (w_nextID (s_w s)) (fst ` set (s_timers s))"
      using disp_register(1) by (simp add: step_defs keys_mput subset_insertI)
    moreover have "fst ` set (s_given t) = insert (w_nextID (s_w s)) (fst ` set (s_given s))"
      using disp_register(1) by (simp add: step_defs)
    ultimately show ?thesis
      using known by (simp add: timers_known_def) (meson insert_mono subset_trans)
  qed (rule keep; simp add: step_defs keys_stop_timer keys_mdel keys_mput_present)+
qed

lemma step_disp_known: "wstep s t \<Longrightarrow> winv s \<Longrightarrow> disp_known t"
  by (erule wstep.cases) (auto simp: winv_def disp_known_def step_defs split: option.splits)

lemma step_conserved:
  assumes "wstep s t" "winv s" "few_ids t"
  shows "conserved t"
proof -
  have few: "few_ids s"
    using assms(1,3) by (rule step_few_ids)
  have cons: "conserved s" and wf: "mwf (w_msgs (s_w s))" "mwf (s_timers s)"
    using assms(2) by (simp_all add: winv_def wf_maps_def)
  note defs = conserved_def held_def step_defs
  from assms(1) show ?thesis
  proof (cases rule: wstep.cases)
    case (disp_register d)
    then have len: "Suc (length (s_given s)) < 2 ^ 64"
      using assms(3) by (simp add: few_ids_def step_defs)
    have "map_of (w_msgs (s_w s)) (w_nextID (s_w s)) = None"
      "map_of (s_timers s) (w_nextID (s_w s)) = None"
      using assms(2) len by (auto simp: winv_def intro: next_id_not_live next_id_not_timed)
    then show ?thesis
      using cons disp_register by (simp add: defs mset_mput_fresh timers_hold_fresh entry_for_def)
  next
    case (disp_reclaim_hit i d m w')
    then have "if_tag m = d_tag d"
      using disp_tag_agrees [OF assms(2) few, of i d m] by (simp add: claim_iffs)
    with disp_reclaim_hit show ?thesis
      using cons mset_mdel_present [of "w_msgs (s_w s)" i m] by (simp add: defs)
  next
    case (read_pickup pid k)
    then show ?thesis
      using cons onPickup_entries [OF wf(1)] by (simp add: defs)
  next
    case (waited pid stale closing w')
    then show ?thesis
      using cons by (auto simp: defs)
  next
    case (timer_fires i)
    then show ?thesis
      using cons wf timers_hold_del [of "s_timers s" i TArmed] by (simp add: defs timers_hold_replace)
  next
    case (timeout_hit i m w')
    then show ?thesis
      using cons wf timers_hold_del [of "s_timers s" i TFiring] mset_mdel_present [of "w_msgs (s_w s)" i m]
      by (simp add: defs timers_hold_replace)
  next
    case (timeout_miss i w')
    then show ?thesis
      using cons timers_hold_del [of "s_timers s" i TFiring] by (simp add: defs)
  next
    case (timeout_settled i tag)
    then show ?thesis
      using cons timers_hold_del [of "s_timers s" i "TNack tag"] by (simp add: defs)
  next
    case (read_done_hit pid d m w')
    then show ?thesis
      using cons mset_mdel_present [of "w_msgs (s_w s)" "do_id d" m] by (simp add: defs)
  qed (use cons in \<open>simp add: defs\<close>)+
qed

theorem winv_step: "wstep s t \<Longrightarrow> few_ids t \<Longrightarrow> winv s \<Longrightarrow> winv t"
  by (simp add: winv_def [of t] step_conserved step_wf_maps step_ids_in_order step_timers_known
      step_within_cap step_cur_agrees step_disp_known)

interpretation wm: machine "init_sys idx cfg capacity" wstep few_ids winv for idx cfg capacity
  by unfold_locales (simp_all add: init_winv winv_step step_few_ids)

lemma reachable_winv: "reachable idx cfg capacity s \<Longrightarrow> few_ids s \<Longrightarrow> winv s"
  unfolding reachable_def by (rule wm.reach_inv)

end
