(* ===== verification/Worker_History.thy ===== *)
theory Worker_History
  imports Worker_Invariant "HOL-Library.Sublist"
begin

text \<open>
  What the history of the worker machine says about each settlement: why a message was acked, nacked or
  requeued, what a handler process was sent, and what was published. Each predicate is kept by every
  step; together with the invariant of \<open>Worker_Invariant\<close> they hold in every reachable state.
\<close>

section \<open>The predicates\<close>

definition reported :: "handler_note list \<Rightarrow> int64 \<Rightarrow> cause \<Rightarrow> bool" where
  "reported rs i c \<longleftrightarrow> (\<exists>d. HDone d \<in> set rs \<and> do_id d = i \<and> done_cause d = c)"

fun sup_reported :: "handler_note list \<Rightarrow> sup_pc \<Rightarrow> bool" where
  "sup_reported rs (SSettle pid i tag c) = reported rs i c"
| "sup_reported rs _ = True"

definition done_hist :: "sys \<Rightarrow> bool" where
  "done_hist s \<longleftrightarrow>
     (\<forall>(i, tag, c) \<in> set (s_settled s). c \<in> {DoneOk, DoneError} \<longrightarrow> reported (s_reads s) i c) \<and>
     sup_reported (s_reads s) (s_sup s)"

fun stale_of :: "sup_pc \<Rightarrow> (int64 \<times> inflight) list" where
  "stale_of (SStale stale closing) = stale"
| "stale_of _ = []"

definition pick_hist :: "sys \<Rightarrow> bool" where
  "pick_hist s \<longleftrightarrow>
     (\<forall>(i, m) \<in> set (w_msgs (s_w s)) \<union> set (stale_of (s_sup s)). if_picked m \<longleftrightarrow> i \<in> set (s_pickups s)) \<and>
     (\<forall>(i, tag, c) \<in> set (s_settled s). (c = DiedPicked \<longrightarrow> i \<in> set (s_pickups s)) \<and>
        (c = DiedUnpicked \<longrightarrow> i \<notin> set (s_pickups s))) \<and>
     set (s_pickups s) \<subseteq> fst ` set (s_given s) \<and>
     (\<forall>i \<in> set (s_pickups s). \<exists>k. HPickup k \<in> set (s_reads s) \<and> pk_id k = i)"

fun note_for :: "int64 \<times> delivery \<Rightarrow> out_note" where
  "note_for (i, d) = ODeliver (deliver_of i d)"

fun is_deliver :: "out_note \<Rightarrow> bool" where
  "is_deliver (ODeliver dn) = True"
| "is_deliver (OEmitAck a) = False"

fun sending :: "disp_pc \<Rightarrow> out_note list" where
  "sending (DSend i pid d) = [note_for (i, d)]"
| "sending _ = []"

definition delivers :: "proc \<Rightarrow> out_note list" where
  "delivers p = filter is_deliver (p_stdin p @ p_out p)"

definition sent_ok :: "out_note list \<Rightarrow> proc list \<Rightarrow> bool" where
  "sent_ok q ps \<longleftrightarrow> (\<forall>p \<in> set ps. subseq (delivers p) q)"

definition sent_hist :: "sys \<Rightarrow> bool" where
  "sent_hist s \<longleftrightarrow>
     subseq (s_queued s @ sending (s_disp s)) (map note_for (s_given s)) \<and>
     sent_ok (s_queued s) (s_procs s)"

definition notqueued :: "sys \<Rightarrow> int64 \<Rightarrow> bool" where
  "notqueued s i \<longleftrightarrow> (\<forall>dn. ODeliver dn \<in> set (s_queued s) \<longrightarrow> dn_id dn \<noteq> i)"

definition unsent_hist :: "sys \<Rightarrow> bool" where
  "unsent_hist s \<longleftrightarrow>
     (\<forall>i d. disp_entry (s_disp s) = Some (i, d) \<longrightarrow> notqueued s i) \<and>
     (\<forall>(i, tag, c) \<in> set (s_settled s). c = NotSent \<longrightarrow>
        notqueued s i \<and> (\<forall>d. disp_entry (s_disp s) \<noteq> Some (i, d)))"

definition chain_of :: "(int64 \<times> delivery) list \<Rightarrow> int64 \<Rightarrow> string list \<Rightarrow> bool" where
  "chain_of given i chain \<longleftrightarrow> (\<exists>d. (i, d) \<in> set given \<and> chain = d_chain d)"

fun sup_chain :: "(int64 \<times> delivery) list \<Rightarrow> sup_pc \<Rightarrow> bool" where
  "sup_chain given (SEmit pid e chain) = (chain = [] \<or> chain_of given (em_deliver e) chain)"
| "sup_chain given _ = True"

definition emit_hist :: "sys \<Rightarrow> bool" where
  "emit_hist s \<longleftrightarrow>
     (\<forall>(i, chain, sel, data) \<in> set (s_published s). declared (s_w s) sel \<and> (chain = [] \<or> chain_of (s_given s) i chain)) \<and>
     sup_chain (s_given s) (s_sup s) \<and>
     (\<forall>(i, m) \<in> set (w_msgs (s_w s)). chain_of (s_given s) i (if_chain m))"

definition room_ok :: "int \<Rightarrow> proc list \<Rightarrow> bool" where
  "room_ok n ps \<longleftrightarrow> (\<forall>p \<in> set ps. int (length (p_out p)) \<le> n)"

definition room_hist :: "sys \<Rightarrow> bool" where
  "room_hist s \<longleftrightarrow> room_ok (w_cap (s_w s) + 1) (s_procs s)"

definition stop_hist :: "sys \<Rightarrow> bool" where
  "stop_hist s \<longleftrightarrow> (w_stopped (s_w s) \<longleftrightarrow> s_sup s = SStopped) \<and> (w_closing (s_w s) \<longleftrightarrow> s_closer s \<noteq> CIdle) \<and>
     (s_refused s \<noteq> [] \<longrightarrow> refuses (s_ctx s) (s_w s))"

definition whist :: "sys \<Rightarrow> bool" where
  "whist s \<longleftrightarrow> done_hist s \<and> pick_hist s \<and> sent_hist s \<and> unsent_hist s \<and> emit_hist s \<and> room_hist s \<and>
     stop_hist s"

section \<open>Shared facts\<close>

lemma reported_mono: "reported rs i c \<Longrightarrow> reported (rs @ ns) i c"
  by (auto simp: reported_def)

lemma sup_reported_mono: "sup_reported rs pc \<Longrightarrow> sup_reported (rs @ ns) pc"
  by (cases pc) (simp_all add: reported_mono)

lemma reported_last: "reported (rs @ [HDone d]) (do_id d) (done_cause d)"
  by (auto simp: reported_def)

lemma done_cause_neq [simp]: "done_cause d \<noteq> NotSent" "done_cause d \<noteq> DiedPicked" "done_cause d \<noteq> DiedUnpicked"
  by (simp_all add: done_cause_def)

lemma stale_cause_neq [simp]: "stale_cause m \<noteq> DoneOk" "stale_cause m \<noteq> DoneError" "stale_cause m \<noteq> NotSent"
  by (simp_all add: stale_cause_def)

lemma live_not_settled:
  assumes "winv s" "few_ids s" "(i, tag) \<in># held s"
  shows "(i, tag', c) \<notin> set (s_settled s)"
proof
  assume "(i, tag', c) \<in> set (s_settled s)"
  then have two: "settled_entry (i, tag', c) \<in># image_mset settled_entry (mset (s_settled s))"
    by (metis image_eqI set_image_mset set_mset_mset)
  have "mset (map fst (s_given s)) = image_mset fst (image_mset given_entry (mset (s_given s)))"
    by (simp add: multiset.map_comp comp_def case_prod_beta' given_entry.simps [unfolded split_paired_all]
        flip: mset_map) (metis (no_types, lifting) fst_conv given_entry.elims map_eq_conv)
  also have "\<dots> = image_mset fst (held s) + image_mset fst (image_mset settled_entry (mset (s_settled s)))"
    using assms(1) by (simp add: winv_def conserved_def)
  finally have split: "mset (map fst (s_given s)) =
    image_mset fst (held s) + image_mset fst (image_mset settled_entry (mset (s_settled s)))" .
  have "i \<in># image_mset fst (held s)" "i \<in># image_mset fst (image_mset settled_entry (mset (s_settled s)))"
    using assms(3) two by (force, force)
  then have "2 \<le> count (mset (map fst (s_given s))) i"
    unfolding split by (metis One_nat_def Suc_1 add_le_mono count_greater_zero_iff count_union less_eq_Suc_le
        plus_1_eq_Suc)
  moreover have "distinct (map fst (s_given s))"
    using ids_distinct [of s] assms(1,2) by (simp add: winv_def)
  ultimately show False
    using distinct_count_atmost_1 [of "map fst (s_given s)"] by (auto split: if_splits)
qed

lemma msgs_held: "map_of (w_msgs (s_w s)) i = Some m \<Longrightarrow> (i, if_tag m) \<in># held s"
proof -
  assume "map_of (w_msgs (s_w s)) i = Some m"
  then have "entry_of (i, m) \<in># image_mset entry_of (mset (w_msgs (s_w s)))"
    by (metis map_of_SomeD image_eqI set_image_mset set_mset_mset)
  then show ?thesis
    by (simp add: held_def)
qed

lemma in_msgs_iff: "winv s \<Longrightarrow> (i, m) \<in> set (w_msgs (s_w s)) \<longleftrightarrow> map_of (w_msgs (s_w s)) i = Some m"
  by (simp add: winv_def wf_maps_def mwf_distinct)

lemma set_mput_eq:
  assumes "mwf m"
  shows "(k', v') \<in> set (mput k v m) \<longleftrightarrow> (if k' = k then v' = v else (k', v') \<in> set m)"
proof -
  have "(k', v') \<in> set (mput k v m) \<longleftrightarrow> map_of (mput k v m) k' = Some v'"
    using assms by (simp add: mwf_distinct del: map_of_mput)
  then show ?thesis
    using assms by (auto simp: mwf_distinct)
qed

lemma in_set_mdel: "e \<in> set (mdel k m) \<Longrightarrow> e \<in> set m"
  using set_mdel_subset by blast

lemma in_set_upd: "p \<in> set (xs[k := y]) \<Longrightarrow> p = y \<or> p \<in> set xs"
  using set_update_subset_insert by fastforce

section \<open>Every step keeps them\<close>

lemma init_whist: "whist (init_sys idx cfg capacity)"
  by (simp add: whist_def done_hist_def pick_hist_def sent_hist_def sent_ok_def unsent_hist_def emit_hist_def
      room_hist_def room_ok_def stop_hist_def init_sys_def newWorker_def)

lemma step_done_hist:
  assumes "wstep s t" "done_hist s"
  shows "done_hist t"
  using assms(1)
  by (cases rule: wstep.cases)
    (use assms(2) in \<open>auto simp: done_hist_def step_defs reported_mono reported_last sup_reported_mono\<close>)

lemma step_stop_hist:
  assumes "wstep s t" "stop_hist s"
  shows "stop_hist t"
  using assms(1)
  by (cases rule: wstep.cases)
    (use assms(2) in \<open>auto simp: stop_hist_def step_defs refuses_def shuttingDown_def\<close>)

lemma step_cap: "wstep s t \<Longrightarrow> w_cap (s_w t) = w_cap (s_w s)"
  by (erule wstep.cases) (simp_all add: step_defs)

lemma step_outputs: "wstep s t \<Longrightarrow> w_outputs (s_w t) = w_outputs (s_w s)"
  by (erule wstep.cases) (simp_all add: step_defs)

lemma step_cfg: "wstep s t \<Longrightarrow> w_cfg (s_w t) = w_cfg (s_w s)"
  by (erule wstep.cases) (simp_all add: step_defs)

lemma room_ok_upd:
  assumes "room_ok n ps" "int (length (p_out (ps ! k))) \<le> n \<Longrightarrow> int (length (p_out q)) \<le> n"
  shows "room_ok n (ps[k := q])"
proof (cases "k < length ps")
  case True
  then show ?thesis
    using assms by (auto simp: room_ok_def dest!: in_set_upd)
next
  case False
  then show ?thesis
    using assms(1) by (simp add: list_update_beyond)
qed

lemma room_ok_snoc: "room_ok n (ps @ [p]) \<longleftrightarrow> room_ok n ps \<and> int (length (p_out p)) \<le> n"
  by (auto simp: room_ok_def)

lemma ackEmit_room: "int (length (p_out p)) \<le> w_cap w + 1 \<Longrightarrow> int (length (p_out (ackEmit w a p))) \<le> w_cap w + 1"
  by (simp add: ackEmit_def enqueue_def has_room_def)

lemma step_room_hist:
  assumes "wstep s t" "winv s" "room_hist s"
  shows "room_hist t"
proof -
  have hist: "room_ok (w_cap (s_w s) + 1) (s_procs s)"
    using assms(3) by (simp add: room_hist_def)
  note defs = room_hist_def step_defs new_proc_def requestStop_def
  have cap: "0 \<le> w_cap (s_w s) + 1"
    using assms(2) by (simp add: winv_def within_cap_def)
  from assms(1) show ?thesis
  proof (cases rule: wstep.cases)
    case (disp_sent i pid d)
    then show ?thesis
      using hist by (auto simp: defs has_room_def enqueue_def intro!: room_ok_upd)
  qed (use hist cap in \<open>auto simp: defs room_ok_snoc ackEmit_room intro!: room_ok_upd\<close>)
qed

lemma sent_ok_upd:
  assumes "sent_ok q ps" "subseq (delivers (ps ! k)) q \<Longrightarrow> subseq (delivers p) q"
  shows "sent_ok q (ps[k := p])"
proof (cases "k < length ps")
  case True
  then show ?thesis
    using assms by (auto simp: sent_ok_def dest!: in_set_upd)
next
  case False
  then show ?thesis
    using assms(1) by (simp add: list_update_beyond)
qed

lemma sent_ok_snoc: "sent_ok q (ps @ [p]) \<longleftrightarrow> sent_ok q ps \<and> subseq (delivers p) q"
  by (auto simp: sent_ok_def)

lemma sent_ok_enqueue:
  assumes "sent_ok q ps" "is_deliver o'"
  shows "sent_ok (q @ [o']) (ps[k := enqueue o' (ps ! k)])"
proof (cases "k < length ps")
  case True
  then have "subseq (delivers (ps ! k)) q"
    using assms(1) by (simp add: sent_ok_def)
  then have "subseq (delivers (enqueue o' (ps ! k))) (q @ [o'])"
    using assms(2) by (simp add: delivers_def enqueue_def flip: append_assoc)
  then show ?thesis
    using assms(1) by (auto simp: sent_ok_def list_emb_prefix dest!: in_set_upd)
next
  case False
  then show ?thesis
    using assms(1) by (simp add: list_update_beyond sent_ok_def list_emb_prefix)
qed

lemma delivers_ackEmit [simp]: "delivers (ackEmit w a p) = delivers p"
  by (simp add: delivers_def ackEmit_def enqueue_def)

lemma delivers_keep [simp]:
  "delivers (p\<lparr>p_stop := b\<rparr>) = delivers p"
  "delivers (p\<lparr>p_exited := b\<rparr>) = delivers p"
  "delivers (p\<lparr>p_writer := pc\<rparr>) = delivers p"
  "delivers new_proc = []"
  by (simp_all add: delivers_def new_proc_def)

lemma delivers_write:
  assumes "p_out p = o' # os"
  shows "delivers (p\<lparr>p_out := os, p_stdin := p_stdin p @ [o']\<rparr>) = delivers p"
    and "subseq (delivers (p\<lparr>p_out := os\<rparr>)) (delivers p)"
  using assms by (auto simp: delivers_def intro: list_emb_append_mono)

lemma subseq_drop_last: "subseq (xs @ ys) zs \<Longrightarrow> subseq xs zs"
  using subseq_order.trans list_emb_prefix subseq_order.refl by blast

lemma step_sent_hist:
  assumes "wstep s t" "sent_hist s"
  shows "sent_hist t"
proof -
  have order: "subseq (s_queued s @ sending (s_disp s)) (map note_for (s_given s))"
    and ok: "sent_ok (s_queued s) (s_procs s)"
    using assms(2) by (simp_all add: sent_hist_def)
  have queued: "subseq (s_queued s) (map note_for (s_given s))"
    using order by (rule subseq_drop_last)
  note defs = sent_hist_def step_defs requestStop_def
  from assms(1) show ?thesis
  proof (cases rule: wstep.cases)
    case (disp_register d)
    then show ?thesis
      using ok queued by (simp add: defs)
  next
    case (disp_sent i pid d)
    then show ?thesis
      using ok order by (simp add: defs sent_ok_enqueue)
  next
    case (write_fails pid o' os)
    then show ?thesis
      using ok order by (simp add: defs) (rule sent_ok_upd, simp, erule subseq_order.trans
          [OF delivers_write(2), rotated], simp)
  qed (use ok order queued in \<open>auto simp: defs sent_ok_snoc delivers_write intro!: sent_ok_upd\<close>)
qed

lemma queued_given:
  assumes "sent_hist s" "ODeliver dn \<in> set (s_queued s)"
  shows "dn_id dn \<in> fst ` set (s_given s)"
proof -
  have "subseq (s_queued s) (map note_for (s_given s))"
    using assms(1) by (auto simp: sent_hist_def intro: subseq_drop_last)
  then have "ODeliver dn \<in> note_for ` set (s_given s)"
    using assms(2) by (auto dest: list_emb_set)
  then show ?thesis
    by (force simp: deliver_of_def)
qed

lemma fresh_not_queued:
  assumes "sent_hist s" "i \<notin> fst ` set (s_given s)"
  shows "notqueued s i"
  using assms queued_given by (auto simp: notqueued_def)

lemma step_unsent_hist:
  assumes "wstep s t" "winv s" "few_ids t" "done_hist s" "sent_hist s" "unsent_hist s"
  shows "unsent_hist t"
  using assms(1)
proof (cases rule: wstep.cases)
  case (done_settled pid i tag c)
  then have "c \<noteq> NotSent"
    using assms(4) by (auto simp: done_hist_def reported_def)
  with done_settled show ?thesis
    using assms(6) by (auto simp: unsent_hist_def notqueued_def step_defs)
next
  case (disp_register d)
  have fresh: "w_nextID (s_w s) \<notin> fst ` set (s_given s)"
    using assms(2,3) disp_register(1) by (intro next_id_fresh) (auto simp: winv_def few_ids_def step_defs)
  have "w_nextID (s_w s) \<noteq> i" if "(i, tag, c) \<in> set (s_settled s)" for i tag c
    using fresh given_entry_fst [OF settled_in_given [OF _ that]] assms(2) by (auto simp: winv_def)
  then show ?thesis
    using disp_register assms(6) fresh_not_queued [OF assms(5) fresh]
    by (fastforce simp: unsent_hist_def notqueued_def step_defs)
next
  case (disp_sent i pid d)
  then show ?thesis
    using assms(6) by (fastforce simp: unsent_hist_def notqueued_def step_defs deliver_of_def)
next
  case (disp_reclaim_hit i d m w')
  then show ?thesis
    using assms(6) by (fastforce simp: unsent_hist_def notqueued_def step_defs)
qed (use assms(6) in \<open>auto simp: unsent_hist_def notqueued_def step_defs\<close>)

lemma onPickup_entry:
  assumes "mwf (w_msgs w)" "(j, m) \<in> set (w_msgs (onPickup i w))"
  obtains m0 where "(j, m0) \<in> set (w_msgs w)" "if_chain m = if_chain m0" "if_tag m = if_tag m0"
    "if_picked m \<longleftrightarrow> if_picked m0 \<or> j = i"
proof (cases "map_of (w_msgs w) i")
  case None
  then have "(j, m) \<in> set (w_msgs w)" "j \<noteq> i"
    using assms by (auto simp: onPickup_def mwf_distinct)
  then show ?thesis
    using that by blast
next
  case (Some m1)
  then have "(i, m1) \<in> set (w_msgs w)"
    by (rule map_of_SomeD)
  then show ?thesis
    using Some assms that by (auto simp: onPickup_def set_mput_eq split: if_splits)
qed

lemma chain_of_snoc: "chain_of (given @ [(j, d)]) i chain \<longleftrightarrow> chain_of given i chain \<or> i = j \<and> chain = d_chain d"
  by (auto simp: chain_of_def)

lemma sup_chain_snoc: "sup_chain given pc \<Longrightarrow> sup_chain (given @ [e]) pc"
  by (cases pc; cases e) (auto simp: chain_of_snoc)

lemma step_emit_hist:
  assumes "wstep s t" "winv s" "few_ids t" "emit_hist s"
  shows "emit_hist t"
proof -
  have wf: "mwf (w_msgs (s_w s))"
    using assms(2) by (simp add: winv_def wf_maps_def)
  have live: "chain_of (s_given s) i (if_chain m)" if "(i, m) \<in> set (w_msgs (s_w s))" for i m
    using assms(4) that by (auto simp: emit_hist_def)
  from assms(1) show ?thesis
  proof (cases rule: wstep.cases)
    case (read_emit pid e)
    then show ?thesis
      using assms(4) by (auto simp: emit_hist_def step_defs emit_chain_def split: option.split dest!: map_of_SomeD)
  next
    case (read_pickup pid k)
    have "chain_of (s_given s) j (if_chain m)" if "(j, m) \<in> set (w_msgs (onPickup (pk_id k) (s_w s)))" for j m
      by (rule onPickup_entry [OF wf that]) (simp add: live)
    then show ?thesis
      using assms(4) read_pickup by (auto simp: emit_hist_def declared_def)
  next
    case (disp_register d)
    then have "map_of (w_msgs (s_w s)) (w_nextID (s_w s)) = None"
      using assms(2,3) by (intro next_id_not_live) (auto simp: winv_def few_ids_def step_defs)
    then show ?thesis
      using disp_register assms(4) wf
      by (auto simp: emit_hist_def step_defs declared_def set_mput_fresh entry_for_def chain_of_snoc sup_chain_snoc)
  qed (use assms(4) in \<open>auto simp: emit_hist_def step_defs declared_def dest!: in_set_mdel\<close>)
qed

lemma settled_not_live:
  assumes "winv s" "few_ids s" "map_of (w_msgs (s_w s)) i = Some m"
  shows "(i, tag, c) \<notin> set (s_settled s)"
  using live_not_settled [OF assms(1,2) msgs_held [OF assms(3)]] .

lemma settle_cause:
  assumes "done_hist s" "s_sup s = SSettle pid i tag c"
  shows "c = DoneOk \<or> c = DoneError"
  using assms by (auto simp: done_hist_def reported_def done_cause_def split: if_splits)

lemma step_pick_hist:
  assumes "wstep s t" "winv s" "few_ids t" "done_hist s" "pick_hist s"
  shows "pick_hist t"
proof -
  have few: "few_ids s"
    using assms(1,3) by (rule step_few_ids)
  have wf: "mwf (w_msgs (s_w s))"
    using assms(2) by (simp add: winv_def wf_maps_def)
  have picked: "set (s_pickups s) \<subseteq> fst ` set (s_given s)"
    and live: "(i, m) \<in> set (w_msgs (s_w s)) \<Longrightarrow> if_picked m \<longleftrightarrow> i \<in> set (s_pickups s)" for i m
    using assms(5) by (auto simp: pick_hist_def)
  from assms(1) show ?thesis
  proof (cases rule: wstep.cases)
    case (done_settled pid i tag c)
    then show ?thesis
      using assms(5) settle_cause [OF assms(4), of pid i tag c] by (auto simp: pick_hist_def)
  next
    case (read_pickup pid k)
    show ?thesis
    proof (cases "map_of (w_msgs (s_w s)) (pk_id k)")
      case None
      then show ?thesis
        using assms(5) read_pickup by (auto simp: pick_hist_def onPickup_def)
    next
      case (Some m)
      have flags: "if_picked m' \<longleftrightarrow> j = pk_id k \<or> j \<in> set (s_pickups s)"
        if "(j, m') \<in> set (w_msgs (onPickup (pk_id k) (s_w s)))" for j m'
        by (rule onPickup_entry [OF wf that]) (auto simp: live)
      have "pk_id k \<in> fst ` set (s_given s)"
        using given_entry_fst [OF msgs_in_given [OF _ Some]] assms(2) by (simp add: winv_def)
      then show ?thesis
        using assms(5) read_pickup Some flags settled_not_live [OF assms(2) few Some]
        by (auto simp: pick_hist_def)
    qed
  next
    case (disp_register d)
    then have few': "Suc (length (s_given s)) < 2 ^ 64"
      using assms(3) by (simp add: few_ids_def step_defs)
    have fresh: "w_nextID (s_w s) \<notin> fst ` set (s_given s)"
      using assms(2) few' by (intro next_id_fresh) (simp_all add: winv_def)
    moreover have "map_of (w_msgs (s_w s)) (w_nextID (s_w s)) = None"
      using assms(2) few' by (intro next_id_not_live) (simp_all add: winv_def)
    ultimately show ?thesis
      using disp_register assms(5) picked
      by (auto simp: pick_hist_def step_defs set_mput_fresh entry_for_def)
  next
    case (waited pid stale closing w')
    then show ?thesis
      using assms(5) by (auto simp: pick_hist_def step_defs)
  next
    case (stale_one xs i m ys closing)
    then show ?thesis
      using assms(5) by (auto simp: pick_hist_def step_defs stale_cause_def)
  qed (use assms(5) in \<open>auto simp: pick_hist_def step_defs dest!: in_set_mdel\<close>)
qed

theorem whist_step:
  "wstep s t \<Longrightarrow> few_ids t \<Longrightarrow> winv s \<Longrightarrow> whist s \<Longrightarrow> whist t"
  by (simp add: whist_def [of t] whist_def [of s] step_done_hist step_pick_hist step_sent_hist
      step_unsent_hist step_emit_hist step_room_hist step_stop_hist)

interpretation wh: machine_plus "init_sys idx cfg capacity" wstep few_ids winv whist for idx cfg capacity
  by unfold_locales (simp_all add: init_whist whist_step)

lemma reachable_whist: "reachable idx cfg capacity s \<Longrightarrow> few_ids s \<Longrightarrow> whist s"
  unfolding reachable_def by (rule wh.reach_more)

end
