(* ===== verification/Worker_Exec.thy ===== *)
theory Worker_Exec
  imports Worker_Machine
begin

text \<open>
  An executable form of the step relation: an event names the goroutine that moves and what the
  environment chose (the note read, whether \<open>Publish\<close> failed, which stale entry comes next), and
  \<open>fire\<close> computes the state after it, or \<^term>\<open>None\<close> when the event cannot happen. The relation and
  the function agree (\<open>wstep_iff_fire\<close>), so a concrete schedule of events is a run of the machine.
\<close>

datatype event =
    ESpawn
  | ESpawnFail
  | EBackoffOver
  | EBackoffCancelled
  | ERead handler_note
  | EPublish "string option"
  | ESettled
  | EReadEnd
  | EEndedStop
  | EWaited
  | EStale nat
  | EStaleEnd
  | EWrite nat bool
  | EWriterStop nat
  | EWriterDone nat
  | ETimerFires int64
  | ETimeout int64
  | ETimeoutSettled int64
  | ECall delivery
  | ERefuse
  | ERegister
  | ESent
  | EUnsent
  | EReclaim
  | ERequeue
  | EClose
  | ECloseStop
  | EKill
  | ECancel
  | EExit nat

definition guard :: "bool \<Rightarrow> sys \<Rightarrow> sys option" where
  "guard b s = (if b then Some s else None)"

lemma guard_Some [simp]: "guard b s = Some t \<longleftrightarrow> b \<and> t = s"
  by (auto simp: guard_def)

fun fire_read :: "handler_note \<Rightarrow> nat \<Rightarrow> sys \<Rightarrow> sys" where
  "fire_read (HEmit e) pid s = s\<lparr>s_sup := SEmit pid e (emit_chain (s_w s) e), s_reads := s_reads s @ [HEmit e]\<rparr>"
| "fire_read (HDone d) pid s =
     (case claim (do_id d) (s_w s) of
        (Some m, w') \<Rightarrow> (release_timer (do_id d) m s)
          \<lparr>s_w := w', s_reads := s_reads s @ [HDone d],
           s_sup := SSettle pid (do_id d) (if_tag m) (done_cause d)\<rparr>
      | (None, w') \<Rightarrow> s\<lparr>s_reads := s_reads s @ [HDone d]\<rparr>)"
| "fire_read (HPickup k) pid s =
     s\<lparr>s_w := onPickup (pk_id k) (s_w s), s_reads := s_reads s @ [HPickup k],
       s_pickups := s_pickups s @ (if map_of (w_msgs (s_w s)) (pk_id k) = None then [] else [pk_id k])\<rparr>"

definition fire_publish :: "string option \<Rightarrow> nat \<Rightarrow> emit_note \<Rightarrow> string list \<Rightarrow> sys \<Rightarrow> sys" where
  "fire_publish err pid e chain s =
     (let s' = on_proc pid (ackEmit (s_w s) (emit_ack_for (s_w s) e err)) s
      in if declared (s_w s) (em_selector e) \<and> err = None
         then s'\<lparr>s_sup := SRead pid, s_published := s_published s @ [(em_deliver e, chain, em_selector e, em_data e)]\<rparr>
         else s'\<lparr>s_sup := SRead pid\<rparr>)"

fun remove_nth :: "nat \<Rightarrow> 'a list \<Rightarrow> ('a \<times> 'a list) option" where
  "remove_nth n [] = None"
| "remove_nth 0 (x # xs) = Some (x, xs)"
| "remove_nth (Suc n) (x # xs) = map_option (\<lambda>(y, ys). (y, x # ys)) (remove_nth n xs)"

text \<open>The supervisor's events, by what its program counter is at.\<close>

fun fire_spawn :: "event \<Rightarrow> sys \<Rightarrow> sys option" where
  "fire_spawn ESpawn s = guard (can_spawn (s_w s)) (spawned s)"
| "fire_spawn ESpawnFail s =
     Some (if shuttingDown (s_ctx s) (s_w s) then stopped s else s\<lparr>s_sup := SBackoff\<rparr>)"
| "fire_spawn _ s = None"

fun fire_backoff :: "event \<Rightarrow> sys \<Rightarrow> sys option" where
  "fire_backoff EBackoffOver s = Some (s\<lparr>s_sup := SSpawn\<rparr>)"
| "fire_backoff EBackoffCancelled s = guard (s_ctx s) (stopped s)"
| "fire_backoff _ s = None"

fun fire_reading :: "event \<Rightarrow> nat \<Rightarrow> sys \<Rightarrow> sys option" where
  "fire_reading (ERead n) pid s = Some (fire_read n pid s)"
| "fire_reading EReadEnd pid s = Some (s\<lparr>s_sup := SEnded pid\<rparr>)"
| "fire_reading _ pid s = None"

fun fire_emit :: "event \<Rightarrow> nat \<Rightarrow> emit_note \<Rightarrow> string list \<Rightarrow> sys \<Rightarrow> sys option" where
  "fire_emit (EPublish err) pid e chain s =
     guard (declared (s_w s) (em_selector e) \<or> err = None) (fire_publish err pid e chain s)"
| "fire_emit _ pid e chain s = None"

fun fire_settle :: "event \<Rightarrow> nat \<Rightarrow> int64 \<Rightarrow> nat \<Rightarrow> cause \<Rightarrow> sys \<Rightarrow> sys option" where
  "fire_settle ESettled pid i tag c s = Some ((settle i tag c s)\<lparr>s_sup := SRead pid\<rparr>)"
| "fire_settle _ pid i tag c s = None"

fun fire_ended :: "event \<Rightarrow> nat \<Rightarrow> sys \<Rightarrow> sys option" where
  "fire_ended EEndedStop pid s = Some ((on_proc pid requestStop s)\<lparr>s_sup := SWait pid\<rparr>)"
| "fire_ended _ pid s = None"

fun fire_wait :: "event \<Rightarrow> nat \<Rightarrow> sys \<Rightarrow> sys option" where
  "fire_wait EWaited pid s =
     guard (p_exited (s_procs s ! pid))
       (case reap (s_ctx s) (s_w s) of (stale, closing, w') \<Rightarrow> s\<lparr>s_w := w', s_sup := SStale stale closing\<rparr>)"
| "fire_wait _ pid s = None"

fun fire_stale :: "event \<Rightarrow> (int64 \<times> inflight) list \<Rightarrow> bool \<Rightarrow> sys \<Rightarrow> sys option" where
  "fire_stale (EStale n) stale closing s =
     (case remove_nth n stale of
        None \<Rightarrow> None
      | Some ((i, m), rest) \<Rightarrow>
          Some ((settle i (if_tag m) (stale_cause m) (release_timer i m s))\<lparr>s_sup := SStale rest closing\<rparr>))"
| "fire_stale EStaleEnd stale closing s =
     guard (stale = []) (if closing then stopped s else s\<lparr>s_sup := SSpawn\<rparr>)"
| "fire_stale _ stale closing s = None"

fun fire_sup :: "event \<Rightarrow> sup_pc \<Rightarrow> sys \<Rightarrow> sys option" where
  "fire_sup ev SSpawn s = fire_spawn ev s"
| "fire_sup ev SBackoff s = fire_backoff ev s"
| "fire_sup ev (SRead pid) s = fire_reading ev pid s"
| "fire_sup ev (SEmit pid e chain) s = fire_emit ev pid e chain s"
| "fire_sup ev (SSettle pid i tag c) s = fire_settle ev pid i tag c s"
| "fire_sup ev (SEnded pid) s = fire_ended ev pid s"
| "fire_sup ev (SWait pid) s = fire_wait ev pid s"
| "fire_sup ev (SStale stale closing) s = fire_stale ev stale closing s"
| "fire_sup ev SStopped s = None"

text \<open>The dispatcher's events.\<close>

fun fire_call :: "event \<Rightarrow> sys \<Rightarrow> sys option" where
  "fire_call (ECall d) s = Some (s\<lparr>s_disp := DWait d\<rparr>)"
| "fire_call _ s = None"

fun fire_admit :: "event \<Rightarrow> delivery \<Rightarrow> sys \<Rightarrow> sys option" where
  "fire_admit ERefuse d s =
     guard (refuses (s_ctx s) (s_w s)) (s\<lparr>s_disp := DIdle, s_refused := s_refused s @ [d_tag d]\<rparr>)"
| "fire_admit ERegister d s =
     guard (\<not> refuses (s_ctx s) (s_w s) \<and> has_slot (s_w s)) (registered d s)"
| "fire_admit _ d s = None"

fun fire_send :: "event \<Rightarrow> int64 \<Rightarrow> nat \<Rightarrow> delivery \<Rightarrow> sys \<Rightarrow> sys option" where
  "fire_send ESent i pid d s = guard (has_room (s_w s) (s_procs s ! pid)) (sent i pid d s)"
| "fire_send EUnsent i pid d s =
     guard (p_stop (s_procs s ! pid) \<or> s_ctx s) (s\<lparr>s_disp := DReclaim i d\<rparr>)"
| "fire_send _ i pid d s = None"

fun fire_reclaim :: "event \<Rightarrow> int64 \<Rightarrow> delivery \<Rightarrow> sys \<Rightarrow> sys option" where
  "fire_reclaim EReclaim i d s =
     Some (case claim i (s_w s) of
        (Some m, w') \<Rightarrow> (release_timer i m s)\<lparr>s_w := w', s_disp := DRequeue i d\<rparr>
      | (None, w') \<Rightarrow> s\<lparr>s_disp := DIdle\<rparr>)"
| "fire_reclaim _ i d s = None"

fun fire_requeue :: "event \<Rightarrow> int64 \<Rightarrow> delivery \<Rightarrow> sys \<Rightarrow> sys option" where
  "fire_requeue ERequeue i d s = Some ((settle i (d_tag d) NotSent s)\<lparr>s_disp := DIdle\<rparr>)"
| "fire_requeue _ i d s = None"

fun fire_disp :: "event \<Rightarrow> disp_pc \<Rightarrow> sys \<Rightarrow> sys option" where
  "fire_disp ev DIdle s = fire_call ev s"
| "fire_disp ev (DWait d) s = fire_admit ev d s"
| "fire_disp ev (DSend i pid d) s = fire_send ev i pid d s"
| "fire_disp ev (DReclaim i d) s = fire_reclaim ev i d s"
| "fire_disp ev (DRequeue i d) s = fire_requeue ev i d s"

text \<open>The events of one process: its writer, and its exit.\<close>

fun fire_proc :: "event \<Rightarrow> proc \<Rightarrow> proc option" where
  "fire_proc (EWrite pid ok) p =
     (case p_out p of
        [] \<Rightarrow> None
      | o' # os \<Rightarrow> if p_writer p = WDone then None
          else Some (if ok then p\<lparr>p_out := os, p_stdin := p_stdin p @ [o']\<rparr> else p\<lparr>p_out := os\<rparr>))"
| "fire_proc (EWriterStop pid) p = (if p_writer p = WRun \<and> p_stop p then Some (p\<lparr>p_writer := WDrain\<rparr>) else None)"
| "fire_proc (EWriterDone pid) p = (if p_writer p = WDrain \<and> p_out p = [] then Some (p\<lparr>p_writer := WDone\<rparr>) else None)"
| "fire_proc (EExit pid) p = Some (p\<lparr>p_exited := True\<rparr>)"
| "fire_proc _ p = None"

definition fire_on :: "nat \<Rightarrow> event \<Rightarrow> sys \<Rightarrow> sys option" where
  "fire_on pid ev s =
     (if pid < length (s_procs s)
      then map_option (\<lambda>p. s\<lparr>s_procs := (s_procs s)[pid := p]\<rparr>) (fire_proc ev (s_procs s ! pid)) else None)"

fun fire_timer :: "event \<Rightarrow> sys \<Rightarrow> sys option" where
  "fire_timer (ETimerFires i) s =
     guard (map_of (s_timers s) i = Some TArmed) (s\<lparr>s_timers := mput i TFiring (s_timers s)\<rparr>)"
| "fire_timer (ETimeout i) s =
     guard (map_of (s_timers s) i = Some TFiring) (case claim i (s_w s) of
        (Some m, w') \<Rightarrow> s\<lparr>s_w := w', s_timers := mput i (TNack (if_tag m)) (s_timers s)\<rparr>
      | (None, w') \<Rightarrow> s\<lparr>s_timers := mdel i (s_timers s)\<rparr>)"
| "fire_timer (ETimeoutSettled i) s =
     (case map_of (s_timers s) i of
        Some (TNack tag) \<Rightarrow> Some ((settle i tag TimedOut s)\<lparr>s_timers := mdel i (s_timers s)\<rparr>)
      | _ \<Rightarrow> None)"
| "fire_timer _ s = None"

fun fire_close :: "event \<Rightarrow> sys \<Rightarrow> sys option" where
  "fire_close EClose s =
     guard (s_closer s = CIdle)
       (case beginClose (s_w s) of (cur, w') \<Rightarrow> s\<lparr>s_w := w', s_closer := CStop cur\<rparr>)"
| "fire_close ECloseStop s =
     (case s_closer s of
        CStop (Some pid) \<Rightarrow> Some ((on_proc pid requestStop s)\<lparr>s_closer := CDone\<rparr>)
      | CStop None \<Rightarrow> Some (s\<lparr>s_closer := CDone\<rparr>)
      | _ \<Rightarrow> None)"
| "fire_close EKill s =
     guard (s_closer s = CDone) (case w_cur (s_w s) of
        Some pid \<Rightarrow> (on_proc pid (\<lambda>p. p\<lparr>p_exited := True\<rparr>) s)\<lparr>s_closer := CKilled\<rparr>
      | None \<Rightarrow> s\<lparr>s_closer := CKilled\<rparr>)"
| "fire_close ECancel s = Some (s\<lparr>s_ctx := True\<rparr>)"
| "fire_close _ s = None"

fun ev_pid :: "event \<Rightarrow> nat option" where
  "ev_pid (EWrite pid ok) = Some pid"
| "ev_pid (EWriterStop pid) = Some pid"
| "ev_pid (EWriterDone pid) = Some pid"
| "ev_pid (EExit pid) = Some pid"
| "ev_pid _ = None"

text \<open>Every event belongs to one goroutine, so at most one of the five parts accepts it.\<close>

fun first_some :: "'a option list \<Rightarrow> 'a option" where
  "first_some [] = None"
| "first_some (None # rs) = first_some rs"
| "first_some (Some x # rs) = Some x"

definition fire :: "event \<Rightarrow> sys \<Rightarrow> sys option" where
  "fire ev s =
     (case ev_pid ev of
        Some pid \<Rightarrow> fire_on pid ev s
      | None \<Rightarrow> first_some [fire_sup ev (s_sup s) s, fire_disp ev (s_disp s) s, fire_timer ev s, fire_close ev s])"

fun fire_all :: "event list \<Rightarrow> sys \<Rightarrow> sys option" where
  "fire_all [] s = Some s"
| "fire_all (ev # evs) s = (case fire ev s of None \<Rightarrow> None | Some t \<Rightarrow> fire_all evs t)"

section \<open>The function and the relation agree\<close>

lemma first_some_mem: "first_some rs = Some x \<Longrightarrow> Some x \<in> set rs"
  by (induction rs rule: first_some.induct) auto

lemma remove_nth_split: "remove_nth n xs = Some (x, rest) \<Longrightarrow> \<exists>ys zs. xs = ys @ x # zs \<and> rest = ys @ zs"
proof (induction n xs arbitrary: rest rule: remove_nth.induct)
  case (3 n y xs)
  then obtain r where "remove_nth n xs = Some (x, r)" "rest = y # r"
    by auto
  with 3 show ?case
    by (metis append_Cons)
qed auto

lemma remove_nth_append: "remove_nth (length ys) (ys @ x # zs) = Some (x, ys @ zs)"
  by (induction ys) auto

lemma fire_publish_steps:
  assumes "s_sup s = SEmit pid e chain" "declared (s_w s) (em_selector e) \<or> err = None"
  shows "wstep s (fire_publish err pid e chain s)"
  using assms emit_undeclared [OF assms(1)] emit_published [OF assms(1)] emit_failed [OF assms(1)]
  by (cases err) (auto simp: fire_publish_def Let_def)

lemma fire_read_steps:
  assumes "s_sup s = SRead pid"
  shows "wstep s (fire_read n pid s)"
proof (cases n)
  case (HEmit e)
  then show ?thesis
    using read_emit [OF assms] by simp
next
  case (HDone d)
  then show ?thesis
    using read_done_hit [OF assms] read_done_miss [OF assms] by (auto split: prod.split option.split)
next
  case (HPickup k)
  then show ?thesis
    using read_pickup [OF assms] by simp
qed

lemma fire_stale_steps:
  assumes "s_sup s = SStale stale closing" "fire_stale ev stale closing s = Some t"
  shows "wstep s t"
proof (cases ev)
  case (EStale n)
  then obtain i m rest where "remove_nth n stale = Some ((i, m), rest)"
    and t: "t = (settle i (if_tag m) (stale_cause m) (release_timer i m s))\<lparr>s_sup := SStale rest closing\<rparr>"
    using assms(2) by (auto split: option.splits)
  then obtain ys zs where "stale = ys @ (i, m) # zs" "rest = ys @ zs"
    by (blast dest: remove_nth_split)
  then show ?thesis
    using assms(1) unfolding t by (metis stale_one)
next
  case EStaleEnd
  then show ?thesis
    using assms stale_stop [of s] stale_respawn [of s] by (cases closing) auto
qed (use assms in auto)

lemma sup_sound: "fire_sup ev (s_sup s) s = Some t \<Longrightarrow> wstep s t"
proof (cases "s_sup s")
  case SSpawn
  moreover assume "fire_sup ev (s_sup s) s = Some t"
  ultimately show ?thesis
    by (cases ev) (auto intro: wstep.intros)
next
  case SBackoff
  moreover assume "fire_sup ev (s_sup s) s = Some t"
  ultimately show ?thesis
    by (cases ev) (auto intro: wstep.intros)
next
  case (SRead pid)
  moreover assume "fire_sup ev (s_sup s) s = Some t"
  ultimately show ?thesis
    by (cases ev) (auto intro: fire_read_steps read_end)
next
  case (SEmit pid e chain)
  moreover assume "fire_sup ev (s_sup s) s = Some t"
  ultimately show ?thesis
    by (cases ev) (auto intro: fire_publish_steps)
next
  case (SSettle pid i tag c)
  moreover assume "fire_sup ev (s_sup s) s = Some t"
  ultimately show ?thesis
    by (cases ev) (auto intro: done_settled)
next
  case (SEnded pid)
  moreover assume "fire_sup ev (s_sup s) s = Some t"
  ultimately show ?thesis
    by (cases ev) (auto intro: ended_stop)
next
  case (SWait pid)
  moreover assume "fire_sup ev (s_sup s) s = Some t"
  ultimately show ?thesis
    by (cases ev) (auto intro: waited split: prod.split)
next
  case (SStale stale closing)
  moreover assume "fire_sup ev (s_sup s) s = Some t"
  ultimately show ?thesis
    by (auto intro: fire_stale_steps)
qed simp

lemma disp_sound: "fire_disp ev (s_disp s) s = Some t \<Longrightarrow> wstep s t"
proof (cases "s_disp s")
  case DIdle
  moreover assume "fire_disp ev (s_disp s) s = Some t"
  ultimately show ?thesis
    by (cases ev) (auto intro: disp_call)
next
  case (DWait d)
  moreover assume "fire_disp ev (s_disp s) s = Some t"
  ultimately show ?thesis
    by (cases ev) (auto intro: disp_refuse disp_register)
next
  case (DSend i pid d)
  moreover assume "fire_disp ev (s_disp s) s = Some t"
  ultimately show ?thesis
    by (cases ev) (auto intro: disp_sent disp_unsent)
next
  case (DReclaim i d)
  moreover assume "fire_disp ev (s_disp s) s = Some t"
  ultimately show ?thesis
    by (cases ev) (auto intro: disp_reclaim_hit disp_reclaim_miss split: prod.split option.split)
next
  case (DRequeue i d)
  moreover assume "fire_disp ev (s_disp s) s = Some t"
  ultimately show ?thesis
    by (cases ev) (auto intro: disp_requeue)
qed

lemma timer_sound: "fire_timer ev s = Some t \<Longrightarrow> wstep s t"
  by (cases ev) (auto intro: timer_fires timeout_hit timeout_miss timeout_settled
      split: prod.split option.splits timer.splits)

lemma close_sound: "fire_close ev s = Some t \<Longrightarrow> wstep s t"
  by (cases ev) (auto intro: close_begin close_stop close_none kill_live kill_none ctx_cancel
      split: prod.split option.splits closer_pc.splits)

lemma proc_sound: "fire_on pid ev s = Some t \<Longrightarrow> wstep s t"
proof -
  assume fires: "fire_on pid ev s = Some t"
  then have pid: "pid < length (s_procs s)"
    by (auto simp: fire_on_def split: if_splits)
  note rules = write_note [OF pid] write_fails [OF pid] writer_stop [OF pid] writer_done [OF pid]
    proc_exit [OF pid]
  show ?thesis
    using fires rules by (cases ev) (auto simp: fire_on_def on_proc_def split: if_splits list.splits)
qed

lemma fire_sound: "fire ev s = Some t \<Longrightarrow> wstep s t"
  by (auto simp: fire_def split: option.splits dest!: first_some_mem
      intro: proc_sound dest: sup_sound [OF sym] disp_sound [OF sym] timer_sound [OF sym] close_sound [OF sym])

lemma fire_all_sound: "fire_all evs s = Some t \<Longrightarrow> wstep\<^sup>*\<^sup>* s t"
proof (induction evs arbitrary: s)
  case (Cons ev evs)
  then obtain u where "fire ev s = Some u" "fire_all evs u = Some t"
    by (auto split: option.splits)
  then show ?case
    using Cons.IH fire_sound by (meson converse_rtranclp_into_rtranclp)
qed simp

text \<open>An event of the dispatcher, of a timer or of the shutdown is none of the supervisor's.\<close>

lemma fire_sup_other [simp]:
  "fire_sup (ECall d) pc s = None" "fire_sup ERefuse pc s = None" "fire_sup ERegister pc s = None"
  "fire_sup ESent pc s = None" "fire_sup EUnsent pc s = None" "fire_sup EReclaim pc s = None"
  "fire_sup ERequeue pc s = None" "fire_sup (ETimerFires i) pc s = None" "fire_sup (ETimeout i) pc s = None"
  "fire_sup (ETimeoutSettled i) pc s = None" "fire_sup EClose pc s = None" "fire_sup ECloseStop pc s = None"
  "fire_sup EKill pc s = None" "fire_sup ECancel pc s = None"
  by (cases pc; simp)+

lemma fire_disp_other [simp]:
  "fire_disp (ETimerFires i) pc s = None" "fire_disp (ETimeout i) pc s = None"
  "fire_disp (ETimeoutSettled i) pc s = None" "fire_disp EClose pc s = None"
  "fire_disp ECloseStop pc s = None" "fire_disp EKill pc s = None" "fire_disp ECancel pc s = None"
  by (cases pc; simp)+

lemma fire_sup_first: "ev_pid ev = None \<Longrightarrow> fire_sup ev (s_sup s) s = Some t \<Longrightarrow> fire ev s = Some t"
  by (simp add: fire_def)

lemma fire_disp_first:
  "ev_pid ev = None \<Longrightarrow> fire_sup ev (s_sup s) s = None \<Longrightarrow> fire_disp ev (s_disp s) s = Some t \<Longrightarrow> fire ev s = Some t"
  by (simp add: fire_def)

lemma fire_complete: "wstep s t \<Longrightarrow> \<exists>ev. fire ev s = Some t"
proof (induction rule: wstep.induct)
  case (spawn_ok s)
  then show ?case by (intro exI [of _ ESpawn]) (simp add: fire_def guard_def)
next
  case (spawn_fail_stop s)
  then show ?case by (intro exI [of _ ESpawnFail]) (simp add: fire_def)
next
  case (spawn_fail_retry s)
  then show ?case by (intro exI [of _ ESpawnFail]) (simp add: fire_def)
next
  case (backoff_over s)
  then show ?case by (intro exI [of _ EBackoffOver]) (simp add: fire_def)
next
  case (backoff_cancelled s)
  then show ?case by (intro exI [of _ EBackoffCancelled]) (simp add: fire_def guard_def)
next
  case (read_emit s pid e)
  then show ?case by (intro exI [of _ "ERead (HEmit e)"]) (simp add: fire_def)
next
  case (emit_undeclared s pid e chain)
  then show ?case by (intro exI [of _ "EPublish None"]) (simp add: fire_def guard_def fire_publish_def)
next
  case (emit_failed s pid e chain err)
  then show ?case by (intro exI [of _ "EPublish (Some err)"]) (simp add: fire_def guard_def fire_publish_def)
next
  case (emit_published s pid e chain)
  then show ?case by (intro exI [of _ "EPublish None"]) (simp add: fire_def guard_def fire_publish_def)
next
  case (read_done_hit s pid d m w')
  then show ?case by (intro exI [of _ "ERead (HDone d)"]) (simp add: fire_def)
next
  case (read_done_miss s pid d w')
  then show ?case by (intro exI [of _ "ERead (HDone d)"]) (simp add: fire_def)
next
  case (done_settled s pid i tag c)
  then show ?case by (intro exI [of _ ESettled]) (simp add: fire_def)
next
  case (read_pickup s pid k)
  then show ?case by (intro exI [of _ "ERead (HPickup k)"]) (simp add: fire_def)
next
  case (read_end s pid)
  then show ?case by (intro exI [of _ EReadEnd]) (simp add: fire_def)
next
  case (ended_stop s pid)
  then show ?case by (intro exI [of _ EEndedStop]) (simp add: fire_def)
next
  case (waited s pid stale closing w')
  then show ?case by (intro exI [of _ EWaited]) (simp add: fire_def guard_def)
next
  case (stale_one s xs i m ys closing)
  then show ?case by (intro exI [of _ "EStale (length xs)"]) (simp add: fire_def remove_nth_append)
next
  case (stale_respawn s)
  then show ?case by (intro exI [of _ EStaleEnd]) (simp add: fire_def guard_def)
next
  case (stale_stop s)
  then show ?case by (intro exI [of _ EStaleEnd]) (simp add: fire_def guard_def)
next
  case (write_note pid s o' os)
  then show ?case by (intro exI [of _ "EWrite pid True"]) (simp add: fire_def fire_on_def on_proc_def)
next
  case (write_fails pid s o' os)
  then show ?case by (intro exI [of _ "EWrite pid False"]) (simp add: fire_def fire_on_def on_proc_def)
next
  case (writer_stop pid s)
  then show ?case by (intro exI [of _ "EWriterStop pid"]) (simp add: fire_def fire_on_def on_proc_def)
next
  case (writer_done pid s)
  then show ?case by (intro exI [of _ "EWriterDone pid"]) (simp add: fire_def fire_on_def on_proc_def)
next
  case (timer_fires s i)
  then show ?case by (intro exI [of _ "ETimerFires i"]) (simp add: fire_def guard_def)
next
  case (timeout_hit s i m w')
  then show ?case by (intro exI [of _ "ETimeout i"]) (simp add: fire_def guard_def)
next
  case (timeout_miss s i w')
  then show ?case by (intro exI [of _ "ETimeout i"]) (simp add: fire_def guard_def)
next
  case (timeout_settled s i tag)
  then show ?case by (intro exI [of _ "ETimeoutSettled i"]) (simp add: fire_def)
next
  case (disp_call s d)
  then show ?case by (intro exI [of _ "ECall d"]) (simp add: fire_def)
next
  case (disp_refuse s d)
  then show ?case by (intro exI [of _ ERefuse]) (simp add: fire_def guard_def)
next
  case (disp_register s d)
  then show ?case by (intro exI [of _ ERegister]) (simp add: fire_def guard_def)
next
  case (disp_sent s i pid d)
  then show ?case by (intro exI [of _ ESent]) (simp add: fire_def guard_def)
next
  case (disp_unsent s i pid d)
  then show ?case by (intro exI [of _ EUnsent]) (simp add: fire_def guard_def)
next
  case (disp_reclaim_hit s i d m w')
  then show ?case by (intro exI [of _ EReclaim]) (simp add: fire_def)
next
  case (disp_reclaim_miss s i d w')
  then show ?case by (intro exI [of _ EReclaim]) (simp add: fire_def)
next
  case (disp_requeue s i d)
  then show ?case by (intro exI [of _ ERequeue]) (simp add: fire_def)
next
  case (close_begin s cur w')
  then show ?case by (intro exI [of _ EClose]) (simp add: fire_def guard_def)
next
  case (close_stop s pid)
  then show ?case by (intro exI [of _ ECloseStop]) (simp add: fire_def)
next
  case (close_none s)
  then show ?case by (intro exI [of _ ECloseStop]) (simp add: fire_def)
next
  case (kill_live s pid)
  then show ?case by (intro exI [of _ EKill]) (simp add: fire_def guard_def)
next
  case (kill_none s)
  then show ?case by (intro exI [of _ EKill]) (simp add: fire_def guard_def)
next
  case (ctx_cancel s)
  then show ?case by (intro exI [of _ ECancel]) (simp add: fire_def)
next
  case (proc_exit pid s)
  then show ?case by (intro exI [of _ "EExit pid"]) (simp add: fire_def fire_on_def on_proc_def)
qed

theorem wstep_iff_fire: "wstep s t \<longleftrightarrow> (\<exists>ev. fire ev s = Some t)"
  using fire_sound fire_complete by blast

lemma reachable_by: "fire_all evs (init_sys idx cfg capacity) = Some s \<Longrightarrow> reachable idx cfg capacity s"
  unfolding reachable_def by (rule fire_all_sound)

end
