(* ===== verification/Worker_Example.thy ===== *)
theory Worker_Example
  imports Worker_Exec
begin

text \<open>
  Concrete schedules of the worker machine: a worker with one declared output and a timeout, two scan
  messages, and the runs the examples of the later theories evaluate.
\<close>

definition ex_cfg :: config where
  "ex_cfg = \<lparr>c_command = [''/app/handler''], c_env = [],
     c_identity = \<lparr>id_agent = ''agent/test'', id_key = ''test'', id_universe = []\<rparr>,
     c_config = None, c_inputs = [''v3.asset.ip''], c_outputs = [''v3.report.vuln''],
     c_protocol = 2, c_timeout = 30\<rparr>"

definition ex_msg :: "nat \<Rightarrow> delivery" where
  "ex_msg tag = \<lparr>d_selector = ''v3.asset.ip'', d_data = Some [(''host'', GStr ''10.0.0.1'')],
     d_chain = [''agent/upstream''], d_meta = \<lparr>meta_message_id = ''m-1'', meta_headers = None\<rparr>, d_tag = tag\<rparr>"

definition ex_emit :: emit_note where
  "ex_emit = \<lparr>em_id = 1, em_deliver = 1, em_selector = ''v3.report.vuln'', em_data = Some []\<rparr>"

definition ex_done :: "int64 \<Rightarrow> done_note" where
  "ex_done i = \<lparr>do_id = i, do_status = ''ok'', do_error = []\<rparr>"

definition ex_pickup :: "int64 \<Rightarrow> pickup_note" where
  "ex_pickup i = \<lparr>pk_id = i\<rparr>"

definition ex_dispatch :: "nat \<Rightarrow> event list" where
  "ex_dispatch tag = [ECall (ex_msg tag), ERegister, ESent]"

text \<open>A message handled to the end: picked up, one emit published, done with status ok, acked.\<close>

definition ex_handled :: "event list" where
  "ex_handled = [ESpawn] @ ex_dispatch 7 @
     [EWrite 0 True, ERead (HPickup (ex_pickup 1)), ERead (HEmit ex_emit), EPublish None,
      ERead (HDone (ex_done 1)), ESettled]"

text \<open>A message its handler failed on: done with status error, nacked.\<close>

definition ex_failed :: "event list" where
  "ex_failed = [ESpawn] @ ex_dispatch 7 @
     [EWrite 0 True, ERead (HDone \<lparr>do_id = 1, do_status = ''error'', do_error = ''no such host''\<rparr>), ESettled]"

text \<open>Two messages in flight, only the first picked up, when the process exits.\<close>

definition ex_crash :: "event list" where
  "ex_crash = [ESpawn] @ ex_dispatch 7 @ ex_dispatch 8 @
     [EWrite 0 True, ERead (HPickup (ex_pickup 1)), EExit 0, EReadEnd, EEndedStop, EWaited,
      EStale 1, EStale 0, EStaleEnd]"

text \<open>A shutdown with the process stopping before the deliver note of the second message is queued.\<close>

definition ex_shutdown :: "event list" where
  "ex_shutdown = [ESpawn] @ ex_dispatch 7 @ [ERead (HDone (ex_done 1)), ESettled,
     ECall (ex_msg 8), ERegister, EClose, ECloseStop, EUnsent, EReclaim, ERequeue,
     EExit 0, EReadEnd, EEndedStop, EWaited, EStaleEnd, ECall (ex_msg 9), ERefuse]"

definition ex_after :: "event list \<Rightarrow> int \<Rightarrow> sys" where
  "ex_after evs capacity = the (fire_all evs (init_sys 0 ex_cfg capacity))"

lemma ex_reachable:
  assumes "fire_all evs (init_sys 0 ex_cfg capacity) \<noteq> None"
  shows "reachable 0 ex_cfg capacity (ex_after evs capacity)"
  using assms by (auto simp: ex_after_def intro: reachable_by)

lemma ex_handled_runs: "fire_all ex_handled (init_sys 0 ex_cfg 1) \<noteq> None"
  by code_simp

lemma ex_failed_runs: "fire_all ex_failed (init_sys 0 ex_cfg 1) \<noteq> None"
  by code_simp

lemma ex_failed_given: "length (s_given (ex_after ex_failed 1)) = 1"
  by code_simp

lemma ex_failed_settled: "s_settled (ex_after ex_failed 1) = [(1, 7, DoneError)]"
  by code_simp

lemma ex_crash_runs: "fire_all ex_crash (init_sys 0 ex_cfg 2) \<noteq> None"
  by code_simp

lemma ex_shutdown_runs: "fire_all ex_shutdown (init_sys 0 ex_cfg 1) \<noteq> None"
  by code_simp

lemma ex_crash_settled: "s_settled (ex_after ex_crash 2) = [(2, 8, DiedUnpicked), (1, 7, DiedPicked)]"
  by code_simp

lemma ex_crash_given: "length (s_given (ex_after ex_crash 2)) = 2"
  by code_simp

lemma ex_handled_settled: "s_settled (ex_after ex_handled 1) = [(1, 7, DoneOk)]"
  by code_simp

lemma ex_handled_given: "length (s_given (ex_after ex_handled 1)) = 1"
  by code_simp

lemma ex_shutdown_settled: "s_settled (ex_after ex_shutdown 1) = [(1, 7, DoneOk), (2, 8, NotSent)]"
  by code_simp

lemma ex_shutdown_given: "length (s_given (ex_after ex_shutdown 1)) = 2"
  by code_simp

lemma ex_shutdown_timers: "s_timers (ex_after ex_shutdown 1) = []"
  by code_simp

lemma ex_shutdown_end: "w_stopped (s_w (ex_after ex_shutdown 1))" "s_disp (ex_after ex_shutdown 1) = DIdle"
  by code_simp+

lemma ex_crash_procs: "length (s_procs (ex_after ex_crash 2)) = 1"
  by code_simp

lemma ex_handled_published:
  "s_published (ex_after ex_handled 1) = [(1, [''agent/upstream''], ''v3.report.vuln'', Some [])]"
  by code_simp

text \<open>The shutdown run up to the moment it begins to close, and the rest of it.\<close>

definition ex_closing :: "event list" where
  "ex_closing = take 9 ex_shutdown"

lemma ex_closing_closes: "w_closing (s_w (ex_after ex_closing 1))"
  by code_simp

lemma ex_closing_goes_on: "wstep\<^sup>*\<^sup>* (ex_after ex_closing 1) (ex_after ex_shutdown 1)"
  by (rule fire_all_sound [of "drop 9 ex_shutdown"]) code_simp

text \<open>The same run up to the moment it has stopped; a last \<open>Dispatch\<close> call comes afterwards.\<close>

definition ex_stopped :: "event list" where
  "ex_stopped = take (length ex_shutdown - 2) ex_shutdown"

lemma ex_stopped_runs: "fire_all ex_stopped (init_sys 0 ex_cfg 1) \<noteq> None"
  by code_simp

lemma ex_stopped_stops: "w_stopped (s_w (ex_after ex_stopped 1))"
  by code_simp

lemma ex_stopped_goes_on: "wstep\<^sup>*\<^sup>* (ex_after ex_stopped 1) (ex_after ex_shutdown 1)"
  by (rule fire_all_sound [of "drop (length ex_shutdown - 2) ex_shutdown"]) code_simp

text \<open>The crash run up to the moment the process has exited and the supervisor waits for it.\<close>

definition ex_dying :: "event list" where
  "ex_dying = take 12 ex_crash"

text \<open>A shutdown that runs while the first process is being spawned.\<close>

definition ex_missed :: "event list" where
  "ex_missed = [EClose, ECloseStop, EKill, ESpawn]"

lemma ex_missed_runs: "fire_all ex_missed (init_sys 0 ex_cfg 1) \<noteq> None"
  by code_simp

end
