(* ===== verification/Worker_Properties.thy ===== *)
theory Worker_Properties
  imports Worker_History Worker_Example
begin

text \<open>
  What one worker promises (\<open>internal/worker/worker.go\<close>), stated over every reachable state of the machine, each
  with a concrete run it holds in.
\<close>

lemma reachable_few: "reachable idx cfg capacity s \<Longrightarrow> length (s_given s) < 2 ^ 64 \<Longrightarrow> winv s \<and> whist s"
  by (simp add: reachable_winv reachable_whist few_ids_def)

lemma reachable_cap: "reachable idx cfg capacity s \<Longrightarrow> w_cap (s_w s) = (if capacity < 1 then 1 else capacity)"
  unfolding reachable_def
  by (induction rule: rtranclp_induct) (simp_all add: step_cap init_sys_def newWorker_def)

lemma reachable_outputs: "reachable idx cfg capacity s \<Longrightarrow> w_outputs (s_w s) = w_outputs (newWorker idx cfg capacity)"
  unfolding reachable_def
  by (induction rule: rtranclp_induct) (simp_all add: step_outputs init_sys_def)

section \<open>Settlement\<close>

text \<open>C7: every message handed to a worker is at any moment exactly one of: in the in-flight map, claimed by
  one goroutine that is about to settle it, or settled; none is lost and none is settled twice.\<close>

theorem worker_conserves_messages:
  assumes "reachable idx cfg capacity s" "length (s_given s) < 2 ^ 64"
  shows "mset (map given_entry (s_given s)) = held s + mset (map settled_entry (s_settled s))"
  using reachable_few [OF assms] by (simp add: winv_def conserved_def)

theorem worker_conserves_messages_witness:
  "mset (map given_entry (s_given (ex_after ex_crash 2))) =
     held (ex_after ex_crash 2) + mset (map settled_entry (s_settled (ex_after ex_crash 2)))"
  by (rule worker_conserves_messages [OF ex_reachable [OF ex_crash_runs]]) (simp add: ex_crash_given)

lemma settled_tags_subset:
  assumes "winv s"
  shows "mset (map (fst \<circ> snd) (s_settled s)) \<subseteq># mset (map (d_tag \<circ> snd) (s_given s))"
proof -
  have "image_mset snd (image_mset settled_entry (mset (s_settled s)))
      \<subseteq># image_mset snd (image_mset given_entry (mset (s_given s)))"
    using assms by (intro image_mset_subseteq_mono) (simp add: winv_def conserved_def)
  moreover have "snd \<circ> settled_entry = fst \<circ> snd" "snd \<circ> given_entry = d_tag \<circ> snd"
    by (auto simp: fun_eq_iff)
  ultimately show ?thesis
    by (simp add: multiset.map_comp)
qed

section \<open>What was settled\<close>

text \<open>C8: when the messages handed to a worker are distinct, each is settled at most once, and nothing is settled
  that was not handed over: exactly one of \<open>Ack\<close>, \<open>Nack\<close>, \<open>Requeue\<close> is called, at most once.\<close>

theorem worker_settles_once:
  assumes "reachable idx cfg capacity s" "length (s_given s) < 2 ^ 64"
    and "distinct (map (d_tag \<circ> snd) (s_given s))"
  shows "distinct (map (fst \<circ> snd) (s_settled s)) \<and>
    set (map (fst \<circ> snd) (s_settled s)) \<subseteq> set (map (d_tag \<circ> snd) (s_given s))"
proof -
  have sub: "mset (map (fst \<circ> snd) (s_settled s)) \<subseteq># mset (map (d_tag \<circ> snd) (s_given s))"
    using reachable_few [OF assms(1,2)] by (intro settled_tags_subset) simp
  have "distinct (map (fst \<circ> snd) (s_settled s))"
    using assms(3) sub by (rule distinct_submset)
  then show ?thesis
    using set_mset_mono [OF sub] by (simp only: set_mset_mset)
qed

theorem worker_settles_once_witness:
  "distinct (map (fst \<circ> snd) (s_settled (ex_after ex_crash 2))) \<and>
    set (map (fst \<circ> snd) (s_settled (ex_after ex_crash 2))) \<subseteq>
    set (map (d_tag \<circ> snd) (s_given (ex_after ex_crash 2)))"
  by (rule worker_settles_once [OF ex_reachable [OF ex_crash_runs]]) (simp add: ex_crash_given, code_simp)

text \<open>C9: once a worker has stopped and no timeout callback or \<open>Dispatch\<close> call is under way, every message handed
  to it has been settled, each once.\<close>

theorem worker_stopped_settled_all:
  assumes "reachable idx cfg capacity s" "length (s_given s) < 2 ^ 64"
    and "w_stopped (s_w s)" "disp_holds (s_disp s) = {#}" "timers_hold (s_timers s) = {#}"
  shows "mset (map given_entry (s_given s)) = mset (map settled_entry (s_settled s))"
proof -
  have "s_sup s = SStopped"
    using reachable_few [OF assms(1,2)] assms(3) by (simp add: whist_def stop_hist_def)
  then have "held s = {#}"
    using reachable_few [OF assms(1,2)] assms(4,5)
    by (simp add: held_def winv_def cur_agrees_def)
  then show ?thesis
    using reachable_few [OF assms(1,2)] by (simp add: winv_def conserved_def)
qed

theorem worker_stopped_settled_all_witness:
  "mset (map given_entry (s_given (ex_after ex_shutdown 1))) =
     mset (map settled_entry (s_settled (ex_after ex_shutdown 1)))"
  by (rule worker_stopped_settled_all [OF ex_reachable [OF ex_shutdown_runs]])
    (simp_all add: ex_shutdown_given ex_shutdown_end ex_shutdown_timers)

text \<open>C11: \<open>Ack\<close> is called exactly for the cause \<open>DoneOk\<close>, and only when a handler sent a done note with status \<open>ok\<close> for
  the id; a message is settled with the cause \<open>DoneError\<close>, a nack, only when a handler sent a done note with another
  status for it. In both cases the message settled is the one handed over under that id.\<close>

theorem worker_acks_only_done_ok:
  assumes "reachable idx cfg capacity s" "length (s_given s) < 2 ^ 64"
    and "(i, tag, c) \<in> set (s_settled s)"
  shows "(verdict_of c = Ack \<longrightarrow> c = DoneOk \<and> (\<exists>d. HDone d \<in> set (s_reads s) \<and> do_id d = i \<and> do_status d = StatusOK)) \<and>
    (c = DoneError \<longrightarrow> verdict_of c = Nack \<and> (\<exists>d. HDone d \<in> set (s_reads s) \<and> do_id d = i \<and> do_status d \<noteq> StatusOK)) \<and>
    (\<exists>d. (i, d) \<in> set (s_given s) \<and> d_tag d = tag)"
proof -
  have "c \<in> {DoneOk, DoneError} \<Longrightarrow> reported (s_reads s) i c"
    using reachable_few [OF assms(1,2)] assms(3) by (fastforce simp: whist_def done_hist_def)
  moreover have "(i, tag) \<in> given_entry ` set (s_given s)"
    using reachable_few [OF assms(1,2)] assms(3) by (intro settled_in_given) (auto simp: winv_def)
  ultimately show ?thesis
    by (fastforce simp: reported_def done_cause_def split: if_splits)
qed

theorem worker_acks_only_done_ok_witness:
  "(\<exists>d. HDone d \<in> set (s_reads (ex_after ex_handled 1)) \<and> do_id d = 1 \<and> do_status d = StatusOK) \<and>
    (\<exists>d. (1, d) \<in> set (s_given (ex_after ex_handled 1)) \<and> d_tag d = 7) \<and>
    (\<exists>d. HDone d \<in> set (s_reads (ex_after ex_failed 1)) \<and> do_id d = 1 \<and> do_status d \<noteq> StatusOK)"
  using worker_acks_only_done_ok [OF ex_reachable [OF ex_handled_runs], of 1 7 DoneOk]
    worker_acks_only_done_ok [OF ex_reachable [OF ex_failed_runs], of 1 7 DoneError]
  by (simp add: ex_handled_given ex_handled_settled ex_failed_given ex_failed_settled)

text \<open>C10: the crash split, cause by cause. \<open>Requeue\<close> is called for exactly two causes. A message requeued because its
  process died had not been reported picked up while it was in flight; one requeued because its note could not be
  sent is on no process's stdin and in no process's queue. A message dropped (nacked) because its process died had
  been reported picked up while in flight, by a note of the handler.\<close>

theorem worker_requeue_split:
  assumes "reachable idx cfg capacity s" "length (s_given s) < 2 ^ 64"
    and "(i, tag, c) \<in> set (s_settled s)"
  shows "(verdict_of c = Requeue \<longleftrightarrow> c = DiedUnpicked \<or> c = NotSent) \<and>
    (c = DiedUnpicked \<longrightarrow> i \<notin> set (s_pickups s)) \<and>
    (c = NotSent \<longrightarrow> (\<forall>p \<in> set (s_procs s). \<forall>dn. ODeliver dn \<in> set (p_stdin p) \<union> set (p_out p) \<longrightarrow> dn_id dn \<noteq> i)) \<and>
    (c = DiedPicked \<longrightarrow> verdict_of c = Nack \<and> i \<in> set (s_pickups s) \<and> (\<exists>k. HPickup k \<in> set (s_reads s) \<and> pk_id k = i))"
proof (intro conjI impI)
  have hist: "pick_hist s" "unsent_hist s" "sent_hist s"
    using reachable_few [OF assms(1,2)] by (simp_all add: whist_def)
  show "verdict_of c = Requeue \<longleftrightarrow> c = DiedUnpicked \<or> c = NotSent"
    by (rule verdict_requeue)
  show "i \<notin> set (s_pickups s)" if "c = DiedUnpicked"
    using hist(1) assms(3) that by (fastforce simp: pick_hist_def)
  show picked: "i \<in> set (s_pickups s)" if "c = DiedPicked"
    using hist(1) assms(3) that by (fastforce simp: pick_hist_def)
  show "\<exists>k. HPickup k \<in> set (s_reads s) \<and> pk_id k = i" if "c = DiedPicked"
    using hist(1) picked [OF that] by (fastforce simp: pick_hist_def)
  show "verdict_of c = Nack" if "c = DiedPicked"
    by (simp add: that)
  assume "c = NotSent"
  then have unsent: "notqueued s i"
    using hist(2) assms(3) by (fastforce simp: unsent_hist_def)
  have queued: "ODeliver dn \<in> set (s_queued s)" if "p \<in> set (s_procs s)" "ODeliver dn \<in> set (p_stdin p) \<union> set (p_out p)" for p dn
  proof -
    have "subseq (delivers p) (s_queued s)" "ODeliver dn \<in> set (delivers p)"
      using hist(3) that by (auto simp: sent_hist_def sent_ok_def delivers_def)
    then show ?thesis
      by (auto dest: list_emb_set)
  qed
  show "\<forall>p \<in> set (s_procs s). \<forall>dn. ODeliver dn \<in> set (p_stdin p) \<union> set (p_out p) \<longrightarrow> dn_id dn \<noteq> i"
    using unsent queued by (auto simp: notqueued_def)
qed

theorem worker_requeue_split_witness:
  "(1 \<in> set (s_pickups (ex_after ex_crash 2)) \<and> (\<exists>k. HPickup k \<in> set (s_reads (ex_after ex_crash 2)) \<and> pk_id k = 1)) \<and>
    2 \<in> - set (s_pickups (ex_after ex_crash 2)) \<and>
    list_all (\<lambda>p. \<nexists>dn. ODeliver dn \<in> set (p_stdin p) \<union> set (p_out p) \<and> dn_id dn = 2) (s_procs (ex_after ex_shutdown 1))"
  using worker_requeue_split [OF ex_reachable [OF ex_crash_runs], of 1 7 DiedPicked]
    worker_requeue_split [OF ex_reachable [OF ex_crash_runs], of 2 8 DiedUnpicked]
    worker_requeue_split [OF ex_reachable [OF ex_shutdown_runs], of 2 8 NotSent]
  by (auto simp: ex_crash_given ex_crash_settled ex_shutdown_given ex_shutdown_settled list_all_iff)

section \<open>Bounds\<close>

text \<open>C16: a worker never has more than its capacity of messages in flight, and no process queue holds more than
  capacity plus one notes.\<close>

theorem worker_within_capacity:
  assumes "reachable idx cfg capacity s" "length (s_given s) < 2 ^ 64"
  shows "int (outstanding (s_w s)) \<le> (if capacity < 1 then 1 else capacity) \<and>
    (\<forall>p \<in> set (s_procs s). int (length (p_out p)) \<le> (if capacity < 1 then 1 else capacity) + 1)"
  using reachable_few [OF assms] reachable_cap [OF assms(1)]
  by (auto simp: winv_def whist_def within_cap_def room_hist_def room_ok_def outstanding_def)

theorem worker_within_capacity_witness:
  "int (outstanding (s_w (ex_after ex_crash 2))) \<le> 2 \<and>
    list_all (\<lambda>p. int (length (p_out p)) \<le> 3) (s_procs (ex_after ex_crash 2))"
  using worker_within_capacity [OF ex_reachable [OF ex_crash_runs]] by (simp add: ex_crash_given list_all_iff)

section \<open>What the handler and the bus see\<close>

lemma delivers_in_order:
  assumes "reachable idx cfg capacity s" "length (s_given s) < 2 ^ 64" "p \<in> set (s_procs s)"
  shows "subseq (filter is_deliver (p_stdin p)) (map note_for (s_given s))"
proof -
  have "sent_hist s"
    using reachable_few [OF assms(1,2)] by (simp add: whist_def)
  then have "subseq (delivers p) (s_queued s)" "subseq (s_queued s) (map note_for (s_given s))"
    using assms(3) by (auto simp: sent_hist_def sent_ok_def intro: subseq_drop_last)
  moreover have "subseq (filter is_deliver (p_stdin p)) (delivers p)"
    by (simp add: delivers_def list_emb_prefix)
  ultimately show ?thesis
    by (blast intro: subseq_order.trans)
qed

text \<open>C15: the deliver notes on a process's stdin are messages handed to the worker, in the order they were handed
  over, each under the id it was registered with.\<close>

theorem handler_sees_dispatch_order:
  assumes "reachable idx cfg capacity s" "length (s_given s) < 2 ^ 64" "p \<in> set (s_procs s)"
  shows "subseq (filter is_deliver (p_stdin p)) (map note_for (s_given s))"
  using assms by (rule delivers_in_order)

theorem handler_sees_dispatch_order_witness:
  "subseq (filter is_deliver (p_stdin (s_procs (ex_after ex_crash 2) ! 0)))
     (map note_for (s_given (ex_after ex_crash 2)))"
  by (rule handler_sees_dispatch_order [OF ex_reachable [OF ex_crash_runs]])
    (simp_all add: ex_crash_given ex_crash_procs)

text \<open>Only emits on declared output selectors are published, and each carries the inbound chain of the message
  its \<open>deliver\<close> id names, or the empty chain when it names no message in flight.\<close>

lemma publishes_declared_with_chain:
  assumes "reachable idx cfg capacity s" "length (s_given s) < 2 ^ 64"
    and "(i, chain, sel, data) \<in> set (s_published s)"
  shows "sel \<in> set (c_outputs cfg) \<and> (chain = [] \<or> (\<exists>d. (i, d) \<in> set (s_given s) \<and> chain = d_chain d))"
proof -
  have "declared (s_w s) sel" "chain = [] \<or> chain_of (s_given s) i chain"
    using reachable_few [OF assms(1,2)] assms(3) by (auto simp: whist_def emit_hist_def)
  moreover have "declared (s_w s) sel \<longleftrightarrow> declared (newWorker idx cfg capacity) sel"
    using reachable_outputs [OF assms(1)] by (simp add: declared_def)
  ultimately show ?thesis
    by (auto simp: declared_newWorker chain_of_def)
qed

section \<open>Shutdown\<close>

lemma closing_step: "wstep s t \<Longrightarrow> w_closing (s_w s) \<Longrightarrow> w_closing (s_w t) \<and> s_given t = s_given s"
  by (erule wstep.cases) (auto simp: step_defs refuses_def)

text \<open>Once a worker is closing, it is handed no further message.\<close>

lemma closing_takes_no_more:
  assumes "w_closing (s_w s)" "wstep\<^sup>*\<^sup>* s t"
  shows "w_closing (s_w t) \<and> s_given t = s_given s"
  using assms(2) by (induction rule: rtranclp_induct) (use assms(1) closing_step in auto)

lemma stopped_step:
  assumes "wstep s t" "winv s" "s_sup s = SStopped"
  shows "s_sup t = SStopped \<and> w_stopped (s_w t) = w_stopped (s_w s) \<and> s_given t = s_given s"
  using assms(1)
  by (cases rule: wstep.cases) (use assms(2,3) in \<open>auto simp: step_defs has_slot_def winv_def cur_agrees_def\<close>)

text \<open>C20: \<open>stoppedCh\<close> is final. A worker that has closed it has no process, nothing in flight, is handed nothing
  more and never starts again.\<close>

theorem worker_stop_is_final:
  assumes "reachable idx cfg capacity s" "w_stopped (s_w s)" "wstep\<^sup>*\<^sup>* s t" "length (s_given t) < 2 ^ 64"
  shows "w_stopped (s_w t) \<and> w_cur (s_w t) = None \<and> w_msgs (s_w t) = [] \<and> s_given t = s_given s"
proof -
  have "few_ids t"
    using assms(4) by (simp add: few_ids_def)
  with assms(3) have "few_ids s"
    by (induction rule: converse_rtranclp_induct) (auto dest: step_few_ids)
  then have start: "winv s" "s_sup s = SStopped"
    using assms(1,2) reachable_winv reachable_whist by (auto simp: whist_def stop_hist_def)
  from assms(3) have "few_ids t \<longrightarrow> winv t \<and> s_sup t = SStopped \<and> w_stopped (s_w t) \<and> s_given t = s_given s"
  proof (induction rule: rtranclp_induct)
    case base
    then show ?case
      using start assms(2) by simp
  next
    case (step t u)
    then show ?case
      using stopped_step [of t u] winv_step [of t u] step_few_ids [of t u] by auto
  qed
  then show ?thesis
    using \<open>few_ids t\<close> by (auto simp: winv_def cur_agrees_def)
qed

theorem worker_stop_is_final_witness:
  "w_stopped (s_w (ex_after ex_shutdown 1)) \<and> w_cur (s_w (ex_after ex_shutdown 1)) = None \<and>
    w_msgs (s_w (ex_after ex_shutdown 1)) = [] \<and> s_given (ex_after ex_shutdown 1) = s_given (ex_after ex_stopped 1)"
  by (rule worker_stop_is_final [OF ex_reachable [OF ex_stopped_runs] ex_stopped_stops ex_stopped_goes_on])
    (simp add: ex_shutdown_given)

text \<open>\<open>Dispatch\<close> refuses a message only when the run is cancelled or the worker is closing.\<close>

lemma dispatch_refuses_only_on_shutdown:
  assumes "reachable idx cfg capacity s" "length (s_given s) < 2 ^ 64" "s_refused s \<noteq> []"
  shows "w_closing (s_w s) \<or> s_ctx s"
  using reachable_few [OF assms(1,2)] assms(3) by (auto simp: whist_def stop_hist_def refuses_def)

section \<open>After a process is gone\<close>

lemma stale_drain:
  "s_sup s = SStale stale closing \<Longrightarrow> \<exists>t. wstep\<^sup>*\<^sup>* s t \<and> s_sup t = SStale [] closing \<and>
     s_settled t = s_settled s @ map (\<lambda>(i, m). (i, if_tag m, stale_cause m)) stale \<and> s_w t = s_w s"
proof (induction stale arbitrary: s)
  case Nil
  then show ?case
    by auto
next
  case (Cons e stale)
  obtain i m where e: "e = (i, m)"
    by (cases e)
  define u where "u = (settle i (if_tag m) (stale_cause m) (release_timer i m s))\<lparr>s_sup := SStale stale closing\<rparr>"
  have "wstep s u"
    using Cons.prems stale_one [of s "[]" i m stale closing] by (simp add: u_def e)
  moreover obtain t where "wstep\<^sup>*\<^sup>* u t" "s_sup t = SStale [] closing" "s_w t = s_w u"
    "s_settled t = s_settled u @ map (\<lambda>(i, m). (i, if_tag m, stale_cause m)) stale"
    using Cons.IH [of u] by (auto simp: u_def)
  ultimately show ?case
    by (intro exI [of _ t]) (auto simp: u_def e intro: converse_rtranclp_into_rtranclp)
qed

text \<open>C19: when a handler process has exited, its supervisor can settle every message that was in flight, the picked-up
  ones as dropped and the others as requeued, and comes out either stopped (when closing) or ready to respawn.\<close>

theorem dead_process_is_cleaned_up:
  assumes "s_sup s = SWait pid" "p_exited (s_procs s ! pid)"
  shows "\<exists>t. wstep\<^sup>*\<^sup>* s t \<and> w_msgs (s_w t) = [] \<and> w_cur (s_w t) = None \<and>
    s_settled t = s_settled s @ map (\<lambda>(i, m). (i, if_tag m, stale_cause m)) (w_msgs (s_w s)) \<and>
    (if shuttingDown (s_ctx s) (s_w s) then s_sup t = SStopped \<and> w_stopped (s_w t) else s_sup t = SSpawn)"
proof -
  define closing where "closing = shuttingDown (s_ctx s) (s_w s)"
  define u where "u = s\<lparr>s_w := (s_w s)\<lparr>w_cur := None, w_msgs := []\<rparr>, s_sup := SStale (w_msgs (s_w s)) closing\<rparr>"
  have "wstep s u"
    using waited [OF assms] by (simp add: u_def closing_def reap_def shuttingDown_def)
  moreover obtain t where t: "wstep\<^sup>*\<^sup>* u t" "s_sup t = SStale [] closing" "s_w t = s_w u"
    "s_settled t = s_settled s @ map (\<lambda>(i, m). (i, if_tag m, stale_cause m)) (w_msgs (s_w s))"
    using stale_drain [of u "w_msgs (s_w s)" closing] by (auto simp: u_def)
  moreover define v where "v = (if closing then stopped t else t\<lparr>s_sup := SSpawn\<rparr>)"
  ultimately have "wstep\<^sup>*\<^sup>* s v"
    using stale_stop [of t] stale_respawn [of t]
    by (cases closing) (auto intro: converse_rtranclp_into_rtranclp rtranclp.rtrancl_into_rtrancl)
  then show ?thesis
    using t(3,4) by (intro exI [of _ v]) (simp add: v_def u_def step_defs flip: closing_def)
qed

theorem dead_process_is_cleaned_up_witness:
  "\<exists>t. wstep\<^sup>*\<^sup>* (ex_after ex_dying 2) t \<and> w_msgs (s_w t) = [] \<and> w_cur (s_w t) = None \<and>
    s_settled t = s_settled (ex_after ex_dying 2) @
      map (\<lambda>(i, m). (i, if_tag m, stale_cause m)) (w_msgs (s_w (ex_after ex_dying 2))) \<and>
    (if shuttingDown (s_ctx (ex_after ex_dying 2)) (s_w (ex_after ex_dying 2))
     then s_sup t = SStopped \<and> w_stopped (s_w t) else s_sup t = SSpawn)"
  by (rule dead_process_is_cleaned_up [of _ 0]) code_simp+

section \<open>A process the shutdown misses\<close>

text \<open>
  \<open>beginClose\<close> stops the process that is live when it takes the lock. While \<open>spawn\<close> is under way there is none, and
  \<open>run\<close> publishes the new process afterwards without looking at \<open>closing\<close>.
\<close>

fun serving :: "nat \<Rightarrow> sup_pc \<Rightarrow> bool" where
  "serving pid (SRead p) \<longleftrightarrow> p = pid"
| "serving pid (SEmit p e chain) \<longleftrightarrow> p = pid"
| "serving pid (SSettle p i tag c) \<longleftrightarrow> p = pid"
| "serving pid _ \<longleftrightarrow> False"

definition missed :: "nat \<Rightarrow> sys \<Rightarrow> bool" where
  "missed pid s \<longleftrightarrow> s_closer s = CKilled \<and> w_closing (s_w s) \<and> pid < length (s_procs s) \<and>
     serving pid (s_sup s) \<and>
     \<not> p_stop (s_procs s ! pid) \<and> \<not> p_exited (s_procs s ! pid)"

text \<open>C21: a shutdown can pass a worker by. There is a run in which \<open>beginClose\<close> and \<open>kill\<close> are both over and a
  live process was neither asked to stop nor killed; from then on it stays so until the process itself ends its
  output or exits.\<close>

theorem shutdown_can_miss_process:
  "(\<exists>s. reachable 0 ex_cfg 1 s \<and> missed 0 s) \<and>
   (\<forall>pid s t. missed pid s \<and> wstep s t \<longrightarrow>
      missed pid t \<or> s_sup t = SEnded pid \<or> p_exited (s_procs t ! pid))"
proof (intro conjI allI impI)
  have "missed 0 (ex_after ex_missed 1)"
    by code_simp
  then show "\<exists>s. reachable 0 ex_cfg 1 s \<and> missed 0 s"
    using ex_reachable [OF ex_missed_runs] by blast
  fix pid s t
  assume step: "missed pid s \<and> wstep s t"
  then have "wstep s t" ..
  then show "missed pid t \<or> s_sup t = SEnded pid \<or> p_exited (s_procs t ! pid)"
    by (cases rule: wstep.cases)
      (use step in \<open>auto simp: missed_def step_defs nth_append nth_update_if ackEmit_def enqueue_def\<close>)
qed

theorem shutdown_can_miss_process_witness:
  "missed 0 (ex_after ex_missed 1) \<and>
   (missed 0 ((ex_after ex_missed 1)\<lparr>s_ctx := True\<rparr>) \<or> s_sup ((ex_after ex_missed 1)\<lparr>s_ctx := True\<rparr>) = SEnded 0 \<or>
    p_exited (s_procs ((ex_after ex_missed 1)\<lparr>s_ctx := True\<rparr>) ! 0))"
proof -
  have "missed 0 (ex_after ex_missed 1)"
    by code_simp
  then show ?thesis
    using conjunct2 [OF shutdown_can_miss_process] ctx_cancel by blast
qed

end
