(* ===== verification/Pool.thy ===== *)
theory Pool
  imports Worker_Properties
begin

text \<open>
  The pool, \<open>internal/worker/pool.go\<close>: a fixed set of workers, the choice of the least loaded one, and the
  shutdown thread. The pool machine runs the worker machines side by side; the engine's serial consumer
  opens one \<open>Dispatch\<close> at a time, and \<open>Shutdown\<close> closes every worker, waits for each within the grace
  window, and kills those that overrun it.
\<close>

section \<open>Building the pool and choosing a worker\<close>

definition at_least_one :: "int \<Rightarrow> int" where
  "at_least_one n = (if n < 1 then 1 else n)"

definition newPool :: "config \<Rightarrow> int \<Rightarrow> int \<Rightarrow> worker list" where
  "newPool cfg n capacity =
     map (\<lambda>i. newWorker i cfg (at_least_one capacity)) [0..<nat (at_least_one n)]"

text \<open>\<open>leastLoaded\<close>: the loop over the workers after the first, keeping the best index and its count. Its
  body is \<open>better\<close>; each count is read under its own worker's lock.\<close>

definition better :: "nat \<times> nat \<Rightarrow> nat \<Rightarrow> nat \<Rightarrow> nat \<times> nat" where
  "better best k n = (if n < snd best then (k, n) else best)"

fun least_from :: "nat \<times> nat \<Rightarrow> nat \<Rightarrow> nat list \<Rightarrow> nat \<times> nat" where
  "least_from best k [] = best"
| "least_from best k (n # ns) = least_from (better best k n) (Suc k) ns"

definition leastLoaded :: "nat list \<Rightarrow> nat" where
  "leastLoaded loads = fst (least_from (0, hd loads) 1 (tl loads))"

text \<open>The scan so far: the best pair is the first least element of the counts read.\<close>

definition least_of :: "nat \<times> nat \<Rightarrow> nat list \<Rightarrow> bool" where
  "least_of best seen \<longleftrightarrow> fst best < length seen \<and> seen ! fst best = snd best \<and>
     (\<forall>j < length seen. snd best \<le> seen ! j) \<and> (\<forall>j < fst best. snd best < seen ! j)"

lemma least_of_one: "least_of (0, n) [n]"
  by (simp add: least_of_def)

lemma least_of_better:
  assumes "least_of best seen"
  shows "least_of (better best (length seen) n) (seen @ [n])"
  using assms by (force simp: least_of_def better_def nth_append less_Suc_eq)

lemma least_of_least_from: "least_of best seen \<Longrightarrow> least_of (least_from best (length seen) ns) (seen @ ns)"
proof (induction ns arbitrary: best seen)
  case (Cons n ns)
  then show ?case
    using least_of_better [OF Cons.prems] by fastforce
qed simp

lemma least_of_leastLoaded:
  assumes "loads \<noteq> []"
  obtains n where "least_of (leastLoaded loads, n) loads"
proof -
  obtain x xs where loads: "loads = x # xs"
    using assms by (cases loads) auto
  have "least_of (least_from (0, x) 1 xs) loads"
    using least_of_least_from [OF least_of_one, of x xs] by (simp add: loads)
  then show thesis
    using that by (cases "least_from (0, x) 1 xs") (simp add: leastLoaded_def loads)
qed

section \<open>The pool machine\<close>

text \<open>
  The consumer's thread between deliveries (\<open>PIdle\<close>) and inside \<open>leastLoaded\<close>: the delivery, the best pair,
  and, for the theorems, the counts read so far; their number is the loop's index. \<open>ps_expired\<close> is
  the shutdown context's \<open>Done\<close>.
\<close>

datatype pick_pc = PIdle | PScan delivery "nat \<times> nat" "nat list"

datatype shut_pc = ShIdle | ShClose nat | ShWait nat | ShKilled nat | ShReturned

record pool_sys =
  ps_ws :: "sys list"
  ps_pick :: pick_pc
  ps_shut :: shut_pc
  ps_expired :: bool

definition start_pool :: "config \<Rightarrow> int \<Rightarrow> int \<Rightarrow> pool_sys" where
  "start_pool cfg n capacity =
     \<lparr>ps_ws = map (\<lambda>i. init_sys i cfg (at_least_one capacity)) [0..<nat (at_least_one n)],
      ps_pick = PIdle, ps_shut = ShIdle, ps_expired = False\<rparr>"

abbreviation load_of :: "sys \<Rightarrow> nat" where
  "load_of s \<equiv> outstanding (s_w s)"

text \<open>A step a worker takes by itself: not a new \<open>Dispatch\<close> call, not the cancellation of the run, not the
  shutdown thread's \<open>beginClose\<close> or \<open>kill\<close>.\<close>

definition own_step :: "sys \<Rightarrow> sys \<Rightarrow> bool" where
  "own_step s t \<longleftrightarrow> wstep s t \<and> (s_disp s = DIdle \<longrightarrow> s_disp t = DIdle) \<and> s_ctx t = s_ctx s \<and>
     (s_closer s \<in> {CIdle, CDone} \<longrightarrow> s_closer t = s_closer s)"

definition set_worker :: "nat \<Rightarrow> sys \<Rightarrow> pool_sys \<Rightarrow> pool_sys" where
  "set_worker i s p = p\<lparr>ps_ws := (ps_ws p)[i := s]\<rparr>"

definition no_dispatch :: "pool_sys \<Rightarrow> bool" where
  "no_dispatch p \<longleftrightarrow> (\<forall>s \<in> set (ps_ws p). s_disp s = DIdle)"

inductive pstep :: "pool_sys \<Rightarrow> pool_sys \<Rightarrow> bool" where
  work: "i < length (ps_ws p) \<Longrightarrow> own_step (ps_ws p ! i) s \<Longrightarrow> pstep p (set_worker i s p)"
| cancel: "pstep p (p\<lparr>ps_ws := map (\<lambda>s. s\<lparr>s_ctx := True\<rparr>) (ps_ws p)\<rparr>)"
  \<comment> \<open>\<open>Dispatch\<close>: the scan of \<open>leastLoaded\<close>, then the worker's own \<open>Dispatch\<close>\<close>
| pick_first: "ps_pick p = PIdle \<Longrightarrow> no_dispatch p \<Longrightarrow> n = load_of (ps_ws p ! 0) \<Longrightarrow>
    pstep p (p\<lparr>ps_pick := PScan d (0, n) [n]\<rparr>)"
| pick_next: "ps_pick p = PScan d best seen \<Longrightarrow> length seen < length (ps_ws p) \<Longrightarrow>
    n = load_of (ps_ws p ! length seen) \<Longrightarrow>
    pstep p (p\<lparr>ps_pick := PScan d (better best (length seen) n) (seen @ [n])\<rparr>)"
| pick_done: "ps_pick p = PScan d best seen \<Longrightarrow> length seen = length (ps_ws p) \<Longrightarrow> i = fst best \<Longrightarrow>
    pstep p ((set_worker i ((ps_ws p ! i)\<lparr>s_disp := DWait d\<rparr>) p)\<lparr>ps_pick := PIdle\<rparr>)"
  \<comment> \<open>\<open>Shutdown\<close>\<close>
| shutdown: "ps_shut p = ShIdle \<Longrightarrow> pstep p (p\<lparr>ps_shut := ShClose 0\<rparr>)"
| close_one: "ps_shut p = ShClose i \<Longrightarrow> i < length (ps_ws p) \<Longrightarrow> s_closer (ps_ws p ! i) = CIdle \<Longrightarrow>
    beginClose (s_w (ps_ws p ! i)) = (cur, w') \<Longrightarrow>
    pstep p (set_worker i ((ps_ws p ! i)\<lparr>s_w := w', s_closer := CStop cur\<rparr>) p)"
| close_next: "ps_shut p = ShClose i \<Longrightarrow> i < length (ps_ws p) \<Longrightarrow> s_closer (ps_ws p ! i) = CDone \<Longrightarrow>
    pstep p (p\<lparr>ps_shut := ShClose (Suc i)\<rparr>)"
| close_all: "ps_shut p = ShClose (length (ps_ws p)) \<Longrightarrow> pstep p (p\<lparr>ps_shut := ShWait 0\<rparr>)"
| grace_over: "ps_shut p \<noteq> ShIdle \<Longrightarrow> pstep p (p\<lparr>ps_expired := True\<rparr>)"
| wait_stopped: "ps_shut p = ShWait i \<Longrightarrow> i < length (ps_ws p) \<Longrightarrow> w_stopped (s_w (ps_ws p ! i)) \<Longrightarrow>
    pstep p (p\<lparr>ps_shut := ShWait (Suc i)\<rparr>)"
| wait_kill: "ps_shut p = ShWait i \<Longrightarrow> i < length (ps_ws p) \<Longrightarrow> ps_expired p \<Longrightarrow>
    wstep (ps_ws p ! i) s \<Longrightarrow> s_closer (ps_ws p ! i) = CDone \<Longrightarrow> s_closer s = CKilled \<Longrightarrow>
    pstep p ((set_worker i s p)\<lparr>ps_shut := ShKilled i\<rparr>)"
| wait_killed: "ps_shut p = ShKilled i \<Longrightarrow> i < length (ps_ws p) \<Longrightarrow> w_stopped (s_w (ps_ws p ! i)) \<Longrightarrow>
    pstep p (p\<lparr>ps_shut := ShWait (Suc i)\<rparr>)"
| wait_all: "ps_shut p = ShWait (length (ps_ws p)) \<Longrightarrow> pstep p (p\<lparr>ps_shut := ShReturned\<rparr>)"

definition pool_reachable :: "config \<Rightarrow> int \<Rightarrow> int \<Rightarrow> pool_sys \<Rightarrow> bool" where
  "pool_reachable cfg n capacity p \<longleftrightarrow> pstep\<^sup>*\<^sup>* (start_pool cfg n capacity) p"

section \<open>The invariant\<close>

fun waited_for :: "shut_pc \<Rightarrow> nat \<Rightarrow> nat" where
  "waited_for (ShWait i) n = i"
| "waited_for (ShKilled i) n = i"
| "waited_for ShReturned n = n"
| "waited_for _ n = 0"

fun closed_for :: "shut_pc \<Rightarrow> nat \<Rightarrow> nat" where
  "closed_for ShIdle n = 0"
| "closed_for (ShClose i) n = i"
| "closed_for _ n = n"

definition all_reachable :: "config \<Rightarrow> int \<Rightarrow> int \<Rightarrow> pool_sys \<Rightarrow> bool" where
  "all_reachable cfg n capacity p \<longleftrightarrow> length (ps_ws p) = nat (at_least_one n) \<and>
     (\<forall>i < length (ps_ws p). reachable i cfg (at_least_one capacity) (ps_ws p ! i))"

definition waited_stopped :: "pool_sys \<Rightarrow> bool" where
  "waited_stopped p \<longleftrightarrow>
     (\<forall>i < length (ps_ws p). i < waited_for (ps_shut p) (length (ps_ws p)) \<longrightarrow> w_stopped (s_w (ps_ws p ! i)))"

definition closed_asked :: "pool_sys \<Rightarrow> bool" where
  "closed_asked p \<longleftrightarrow>
     (\<forall>i < length (ps_ws p). i < closed_for (ps_shut p) (length (ps_ws p)) \<longrightarrow> w_closing (s_w (ps_ws p ! i)))"

definition one_dispatch :: "pool_sys \<Rightarrow> bool" where
  "one_dispatch p \<longleftrightarrow> (\<forall>i j. i < length (ps_ws p) \<longrightarrow> j < length (ps_ws p) \<longrightarrow>
     s_disp (ps_ws p ! i) \<noteq> DIdle \<longrightarrow> s_disp (ps_ws p ! j) \<noteq> DIdle \<longrightarrow> i = j)"

text \<open>While the consumer scans, no \<open>Dispatch\<close> is open, the best pair is the first least count read, and
  no count has risen since it was read.\<close>

fun scanning :: "pick_pc \<Rightarrow> sys list \<Rightarrow> bool" where
  "scanning PIdle ws \<longleftrightarrow> True"
| "scanning (PScan d best seen) ws \<longleftrightarrow> (\<forall>s \<in> set ws. s_disp s = DIdle) \<and> length seen \<le> length ws \<and>
     least_of best seen \<and> (\<forall>j < length seen. load_of (ws ! j) \<le> seen ! j)"

definition scan_ok :: "pool_sys \<Rightarrow> bool" where
  "scan_ok p \<longleftrightarrow> scanning (ps_pick p) (ps_ws p)"

definition pool_inv :: "config \<Rightarrow> int \<Rightarrow> int \<Rightarrow> pool_sys \<Rightarrow> bool" where
  "pool_inv cfg n capacity p \<longleftrightarrow> all_reachable cfg n capacity p \<and> waited_stopped p \<and> closed_asked p \<and>
     one_dispatch p \<and> scan_ok p"

lemma reachable_step: "reachable idx cfg capacity s \<Longrightarrow> wstep s t \<Longrightarrow> reachable idx cfg capacity t"
  unfolding reachable_def by (rule rtranclp.rtrancl_into_rtrancl)

lemma step_stopped: "wstep s t \<Longrightarrow> w_stopped (s_w s) \<Longrightarrow> w_stopped (s_w t)"
  by (erule wstep.cases) (simp_all add: step_defs)

lemma step_closing: "wstep s t \<Longrightarrow> w_closing (s_w s) \<Longrightarrow> w_closing (s_w t)"
  using closing_step by blast

lemma own_stopped: "own_step s t \<Longrightarrow> w_stopped (s_w s) \<Longrightarrow> w_stopped (s_w t)"
  by (auto simp: own_step_def intro: step_stopped)

lemma own_closing: "own_step s t \<Longrightarrow> w_closing (s_w s) \<Longrightarrow> w_closing (s_w t)"
  by (auto simp: own_step_def intro: step_closing)

lemma at_least_one_pos [simp]: "0 < nat (at_least_one n)"
  by (simp add: at_least_one_def)

text \<open>With no \<open>Dispatch\<close> open a worker's load never rises.\<close>

lemma step_mwf: "wstep s t \<Longrightarrow> mwf (w_msgs (s_w s)) \<Longrightarrow> mwf (w_msgs (s_w t))"
  by (erule wstep.cases) (auto simp: step_defs claim_iffs)

lemma reachable_mwf: "reachable idx cfg capacity s \<Longrightarrow> mwf (w_msgs (s_w s))"
  unfolding reachable_def
  by (induction rule: rtranclp_induct) (auto simp: init_sys_def newWorker_def intro: step_mwf)

lemma step_load:
  assumes "wstep s t" "mwf (w_msgs (s_w s))" "s_disp s = DIdle"
  shows "load_of t \<le> load_of s"
  using assms(1)
  by (cases rule: wstep.cases)
    (use assms(2,3) in \<open>auto simp: outstanding_def step_defs claim_iffs length_mdel_le\<close>)

lemma step_closer: "wstep s t \<Longrightarrow> (s_closer s = CIdle \<or> w_closing (s_w s)) \<Longrightarrow>
    (s_closer t = CIdle \<or> w_closing (s_w t))"
  by (erule wstep.cases) (auto simp: step_defs claim_iffs)

lemma reachable_closer: "reachable idx cfg capacity s \<Longrightarrow> s_closer s \<noteq> CIdle \<Longrightarrow> w_closing (s_w s)"
proof -
  assume "reachable idx cfg capacity s" "s_closer s \<noteq> CIdle"
  then show ?thesis
    using rtranclp_induct [of wstep "init_sys idx cfg capacity" s "\<lambda>s. s_closer s = CIdle \<or> w_closing (s_w s)"]
      step_closer by (auto simp: reachable_def init_sys_def)
qed

lemma set_worker_simps [simp]:
  "ps_ws (set_worker i s p) = (ps_ws p)[i := s]"
  "ps_shut (set_worker i s p) = ps_shut p"
  "ps_pick (set_worker i s p) = ps_pick p"
  by (simp_all add: set_worker_def)

lemma start_pool_inv: "pool_inv cfg n capacity (start_pool cfg n capacity)"
  by (auto simp: pool_inv_def all_reachable_def waited_stopped_def closed_asked_def one_dispatch_def
      scan_ok_def start_pool_def reachable_def init_sys_def)

lemma all_reachable_upd:
  assumes "all_reachable cfg n capacity p" "i < length (ps_ws p)" "wstep (ps_ws p ! i) s"
  shows "all_reachable cfg n capacity (set_worker i s p)"
  using assms by (auto simp: all_reachable_def nth_update_if intro: reachable_step)

lemma kill_frame:
  assumes "wstep s t" "s_closer s = CDone" "s_closer t = CKilled"
  shows "s_disp t = s_disp s" "s_w t = s_w s"
  using assms by (auto elim: wstep.cases simp: step_defs)

lemma pstep_all_reachable:
  assumes "pstep p q" "all_reachable cfg n capacity p" "scan_ok p"
  shows "all_reachable cfg n capacity q"
  using assms(1)
proof (cases rule: pstep.cases)
  case (work i s)
  then show ?thesis
    using assms(2) by (auto simp: own_step_def intro: all_reachable_upd)
next
  case cancel
  then show ?thesis
    using assms(2) reachable_step [OF _ ctx_cancel] by (simp add: all_reachable_def)
next
  case (pick_done d best seen i)
  then have idle: "i < length (ps_ws p)" "s_disp (ps_ws p ! i) = DIdle"
    using assms(3) by (auto simp: scan_ok_def least_of_def)
  show ?thesis
    using all_reachable_upd [OF assms(2) idle(1) disp_call [OF idle(2)]] pick_done(1)
    by (simp add: all_reachable_def)
next
  case (close_one i cur w')
  then show ?thesis
    using assms(2) close_begin [OF close_one(4,5)] by (auto intro: all_reachable_upd)
next
  case (wait_kill i s)
  then have "all_reachable cfg n capacity (set_worker i s p)"
    using assms(2) by (auto intro: all_reachable_upd)
  then show ?thesis
    using wait_kill(1) by (simp add: all_reachable_def)
qed (use assms(2) in \<open>simp_all add: all_reachable_def\<close>)

lemma pstep_waited_stopped:
  assumes "pstep p q" "waited_stopped p"
  shows "waited_stopped q"
  using assms(1)
  by (cases rule: pstep.cases)
    (use assms(2) in \<open>auto simp: waited_stopped_def nth_update_if beginClose_def less_Suc_eq
      intro: step_stopped own_stopped\<close>)

lemma pstep_closed_asked:
  assumes "pstep p q" "closed_asked p" "all_reachable cfg n capacity p"
  shows "closed_asked q"
  using assms(1)
proof (cases rule: pstep.cases)
  case (close_next i)
  have "w_closing (s_w (ps_ws p ! i))"
    using assms(3) close_next reachable_closer by (auto simp: all_reachable_def)
  then show ?thesis
    using assms(2) close_next by (auto simp: closed_asked_def less_Suc_eq)
qed (use assms(2) in \<open>auto simp: closed_asked_def nth_update_if beginClose_def less_Suc_eq
      intro: step_closing own_closing\<close>)

lemma pstep_one_dispatch:
  assumes "pstep p q" "one_dispatch p" "scan_ok p"
  shows "one_dispatch q"
  using assms(1)
proof (cases rule: pstep.cases)
  case (wait_kill i s)
  then have "s_disp s = s_disp (ps_ws p ! i)"
    by (intro kill_frame)
  then show ?thesis
    using assms(2) wait_kill by (auto simp: one_dispatch_def nth_update_if)
qed (use assms(2,3) in \<open>auto simp: one_dispatch_def nth_update_if own_step_def scan_ok_def split: if_splits\<close>)

lemma pstep_scan_ok:
  assumes "pstep p q" "scan_ok p" "all_reachable cfg n capacity p"
  shows "scan_ok q"
  using assms(1)
proof (cases rule: pstep.cases)
  case (work i s)
  have mwf: "mwf (w_msgs (s_w (ps_ws p ! i)))"
    using assms(3) work(2) reachable_mwf by (auto simp: all_reachable_def)
  show ?thesis
  proof (cases "ps_pick p")
    case (PScan d best seen)
    then have idle: "s_disp (ps_ws p ! i) = DIdle"
      using assms(2) work(2) by (auto simp: scan_ok_def)
    then have "load_of s \<le> load_of (ps_ws p ! i)" "s_disp s = DIdle"
      using step_load [OF _ mwf idle] work(3) by (auto simp: own_step_def)
    then show ?thesis
      using assms(2) work(1,2) PScan
      by (auto simp: scan_ok_def nth_update_if set_update_subset_insert [THEN subsetD] dest!: set_update_subset_insert [THEN subsetD] intro: order_trans)
  qed (simp add: scan_ok_def work(1))
next
  case cancel
  then show ?thesis
    using assms(2) by (cases "ps_pick p") (auto simp: scan_ok_def)
next
  case (pick_first k d)
  then show ?thesis
    using assms(3)
    by (cases "ps_ws p") (auto simp: scan_ok_def no_dispatch_def least_of_one all_reachable_def at_least_one_def split: if_splits)
next
  case (pick_next d best seen k)
  then show ?thesis
    using assms(2) least_of_better [of best seen k]
    by (auto simp: scan_ok_def nth_append less_Suc_eq)
next
  case (close_one i cur w')
  then show ?thesis
    using assms(2)
    by (cases "ps_pick p")
      (auto simp: scan_ok_def nth_update_if beginClose_def outstanding_def dest!: set_update_subset_insert [THEN subsetD])
next
  case (wait_kill i s)
  then show ?thesis
    using assms(2) kill_frame [OF wait_kill(5-7)]
    by (cases "ps_pick p")
      (auto simp: scan_ok_def nth_update_if dest!: set_update_subset_insert [THEN subsetD])
qed (use assms(2) in \<open>simp_all add: scan_ok_def\<close>)

interpretation pm: machine "start_pool cfg n capacity" pstep "\<lambda>_. True" "pool_inv cfg n capacity"
  for cfg n capacity
proof unfold_locales
  show "pool_inv cfg n capacity (start_pool cfg n capacity)"
    by (rule start_pool_inv)
next
  fix p q
  assume "pstep p q" "pool_inv cfg n capacity p"
  then show "pool_inv cfg n capacity q"
    unfolding pool_inv_def
    using pstep_all_reachable pstep_waited_stopped pstep_closed_asked pstep_one_dispatch pstep_scan_ok
    by blast
qed simp

lemma pool_reachable_inv: "pool_reachable cfg n capacity p \<Longrightarrow> pool_inv cfg n capacity p"
  unfolding pool_reachable_def by (rule pm.reach_inv) simp_all

end
