(* ===== verification/Pool_Exec.thy ===== *)
theory Pool_Exec
  imports Pool
begin

text \<open>
  The pool machine as a function of a schedule: \<open>pfire\<close> performs the step an event names, or \<open>None\<close> when it is
  not enabled. \<open>pstep_iff_pfire\<close> shows that it performs exactly the steps of \<open>pstep\<close>; the examples at the
  end are runs of a pool of two workers.
\<close>

datatype pool_event =
    PWork nat event
  | PCancel
  | PPick delivery
  | PPickNext
  | PPickDone
  | PShutdown
  | PClose
  | PCloseNext
  | PGraceOver
  | PWaited
  | PKill

definition pguard :: "bool \<Rightarrow> pool_sys \<Rightarrow> pool_sys option" where
  "pguard b p = (if b then Some p else None)"

lemma pguard_Some [simp]: "pguard b p = Some q \<longleftrightarrow> b \<and> q = p"
  by (auto simp: pguard_def)

definition keeps_out :: "sys \<Rightarrow> sys \<Rightarrow> bool" where
  "keeps_out s t \<longleftrightarrow> (s_disp s = DIdle \<longrightarrow> s_disp t = DIdle) \<and> s_ctx t = s_ctx s \<and>
     (s_closer s \<in> {CIdle, CDone} \<longrightarrow> s_closer t = s_closer s)"

fun pfire_pick :: "pool_event \<Rightarrow> pick_pc \<Rightarrow> pool_sys \<Rightarrow> pool_sys option" where
  "pfire_pick (PPick d) PIdle p =
     pguard (no_dispatch p)
       (p\<lparr>ps_pick := PScan d (0, load_of (ps_ws p ! 0)) [load_of (ps_ws p ! 0)]\<rparr>)"
| "pfire_pick PPickNext (PScan d best seen) p =
     pguard (length seen < length (ps_ws p))
       (let n = load_of (ps_ws p ! length seen)
        in p\<lparr>ps_pick := PScan d (better best (length seen) n) (seen @ [n])\<rparr>)"
| "pfire_pick PPickDone (PScan d best seen) p =
     pguard (length seen = length (ps_ws p))
       ((set_worker (fst best) ((ps_ws p ! fst best)\<lparr>s_disp := DWait d\<rparr>) p)\<lparr>ps_pick := PIdle\<rparr>)"
| "pfire_pick _ _ p = None"

definition fire_kill :: "nat \<Rightarrow> pool_sys \<Rightarrow> pool_sys option" where
  "fire_kill i p =
     (case fire EKill (ps_ws p ! i) of
        None \<Rightarrow> None
      | Some s \<Rightarrow> pguard (i < length (ps_ws p) \<and> ps_expired p) ((set_worker i s p)\<lparr>ps_shut := ShKilled i\<rparr>))"

definition fire_close_one :: "nat \<Rightarrow> pool_sys \<Rightarrow> pool_sys option" where
  "fire_close_one i p =
     (let s = ps_ws p ! i; (cur, w') = beginClose (s_w s)
      in pguard (i < length (ps_ws p) \<and> s_closer s = CIdle) (set_worker i (s\<lparr>s_w := w', s_closer := CStop cur\<rparr>) p))"

fun pfire_shut :: "pool_event \<Rightarrow> shut_pc \<Rightarrow> pool_sys \<Rightarrow> pool_sys option" where
  "pfire_shut PShutdown ShIdle p = Some (p\<lparr>ps_shut := ShClose 0\<rparr>)"
| "pfire_shut PClose (ShClose i) p = fire_close_one i p"
| "pfire_shut PCloseNext (ShClose i) p =
     (if i = length (ps_ws p) then Some (p\<lparr>ps_shut := ShWait 0\<rparr>)
      else pguard (i < length (ps_ws p) \<and> s_closer (ps_ws p ! i) = CDone) (p\<lparr>ps_shut := ShClose (Suc i)\<rparr>))"
| "pfire_shut PWaited (ShWait i) p =
     (if i = length (ps_ws p) then Some (p\<lparr>ps_shut := ShReturned\<rparr>)
      else pguard (i < length (ps_ws p) \<and> w_stopped (s_w (ps_ws p ! i))) (p\<lparr>ps_shut := ShWait (Suc i)\<rparr>))"
| "pfire_shut PWaited (ShKilled i) p =
     pguard (i < length (ps_ws p) \<and> w_stopped (s_w (ps_ws p ! i))) (p\<lparr>ps_shut := ShWait (Suc i)\<rparr>)"
| "pfire_shut PKill (ShWait i) p = fire_kill i p"
| "pfire_shut _ _ p = None"

fun pfire :: "pool_event \<Rightarrow> pool_sys \<Rightarrow> pool_sys option" where
  "pfire (PWork i ev) p =
     (case fire ev (ps_ws p ! i) of
        None \<Rightarrow> None
      | Some s \<Rightarrow> pguard (i < length (ps_ws p) \<and> keeps_out (ps_ws p ! i) s) (set_worker i s p))"
| "pfire PCancel p = Some (p\<lparr>ps_ws := map (\<lambda>s. s\<lparr>s_ctx := True\<rparr>) (ps_ws p)\<rparr>)"
| "pfire (PPick d) p = pfire_pick (PPick d) (ps_pick p) p"
| "pfire PPickNext p = pfire_pick PPickNext (ps_pick p) p"
| "pfire PPickDone p = pfire_pick PPickDone (ps_pick p) p"
| "pfire PGraceOver p = pguard (ps_shut p \<noteq> ShIdle) (p\<lparr>ps_expired := True\<rparr>)"
| "pfire ev p = pfire_shut ev (ps_shut p) p"

fun pfire_all :: "pool_event list \<Rightarrow> pool_sys \<Rightarrow> pool_sys option" where
  "pfire_all [] p = Some p"
| "pfire_all (ev # evs) p = (case pfire ev p of None \<Rightarrow> None | Some q \<Rightarrow> pfire_all evs q)"

section \<open>The function and the relation agree\<close>

lemma first_some_one [simp]: "first_some [r] = r"
  by (cases r) simp_all

lemma fire_kill_iff:
  "fire EKill s = Some t \<longleftrightarrow> wstep s t \<and> s_closer s = CDone \<and> s_closer t = CKilled"
proof
  assume fired: "fire EKill s = Some t"
  then have "s_closer s = CDone" "s_closer t = CKilled"
    by (auto simp: fire_def split: option.splits)
  then show "wstep s t \<and> s_closer s = CDone \<and> s_closer t = CKilled"
    using fire_sound [OF fired] by simp
next
  assume kill: "wstep s t \<and> s_closer s = CDone \<and> s_closer t = CKilled"
  then have "wstep s t" ..
  then show "fire EKill s = Some t"
    by (cases rule: wstep.cases) (use kill in \<open>auto simp: fire_def guard_def step_defs\<close>)
qed

lemma own_step_fire: "own_step s t \<longleftrightarrow> (\<exists>ev. fire ev s = Some t) \<and> keeps_out s t"
  by (auto simp: own_step_def keeps_out_def wstep_iff_fire)

lemma pfire_pick_sound: "pfire_pick ev (ps_pick p) p = Some q \<Longrightarrow> pstep p q"
  by (cases "(ev, ps_pick p, p)" rule: pfire_pick.cases)
    (auto simp: Let_def intro: pick_first pick_next pick_done)

lemma fire_kill_sound:
  assumes "fire_kill i p = Some q" "ps_shut p = ShWait i"
  shows "pstep p q"
proof -
  obtain s where s: "fire EKill (ps_ws p ! i) = Some s" "i < length (ps_ws p)" "ps_expired p"
      "q = (set_worker i s p)\<lparr>ps_shut := ShKilled i\<rparr>"
    using assms(1) by (auto simp: fire_kill_def split: option.splits)
  then show ?thesis
    using wait_kill [OF assms(2) s(2,3)] by (simp add: fire_kill_iff)
qed

lemma pfire_shut_sound: "pfire_shut ev (ps_shut p) p = Some q \<Longrightarrow> pstep p q"
  by (cases "(ev, ps_shut p, p)" rule: pfire_shut.cases)
    (auto simp: fire_close_one_def Let_def intro: shutdown close_one close_next close_all wait_stopped
      wait_killed wait_all fire_kill_sound split: if_splits prod.splits)

lemma pfire_sound: "pfire ev p = Some q \<Longrightarrow> pstep p q"
proof (cases ev)
  case (PWork i e)
  assume "pfire ev p = Some q"
  then obtain s where "fire e (ps_ws p ! i) = Some s" "i < length (ps_ws p)" "keeps_out (ps_ws p ! i) s"
      "q = set_worker i s p"
    using PWork by (auto split: option.splits)
  then show ?thesis
    using work own_step_fire by blast
qed (auto intro: cancel grace_over pfire_pick_sound pfire_shut_sound)

lemma pfire_complete: "pstep p q \<Longrightarrow> \<exists>ev. pfire ev p = Some q"
proof (induction rule: pstep.induct)
  case (work i p s)
  then obtain ev where "fire ev (ps_ws p ! i) = Some s" "keeps_out (ps_ws p ! i) s"
    by (auto simp: own_step_fire)
  with work show ?case
    by (intro exI [of _ "PWork i ev"]) simp
next
  case (cancel p)
  show ?case by (rule exI [of _ PCancel]) simp
next
  case (pick_first p n d)
  then show ?case by (intro exI [of _ "PPick d"]) simp
next
  case (pick_next p d best seen n)
  then show ?case by (intro exI [of _ PPickNext]) (simp add: Let_def)
next
  case (pick_done p d best seen i)
  then show ?case by (intro exI [of _ PPickDone]) simp
next
  case (shutdown p)
  then show ?case by (intro exI [of _ PShutdown]) simp
next
  case (close_one p i cur w')
  then show ?case by (intro exI [of _ PClose]) (simp add: fire_close_one_def)
next
  case (close_next p i)
  then show ?case by (intro exI [of _ PCloseNext]) simp
next
  case (close_all p)
  then show ?case by (intro exI [of _ PCloseNext]) simp
next
  case (grace_over p)
  then show ?case by (intro exI [of _ PGraceOver]) simp
next
  case (wait_stopped p i)
  then show ?case by (intro exI [of _ PWaited]) simp
next
  case (wait_kill p i s)
  then have "fire EKill (ps_ws p ! i) = Some s"
    by (simp add: fire_kill_iff)
  with wait_kill show ?case
    by (intro exI [of _ PKill]) (simp add: fire_kill_def)
next
  case (wait_killed p i)
  then show ?case by (intro exI [of _ PWaited]) simp
next
  case (wait_all p)
  then show ?case by (intro exI [of _ PWaited]) simp
qed

lemma pstep_iff_pfire: "pstep p q \<longleftrightarrow> (\<exists>ev. pfire ev p = Some q)"
  using pfire_sound pfire_complete by blast

lemma pool_reachable_by: "pfire_all evs (start_pool cfg n capacity) = Some p \<Longrightarrow> pool_reachable cfg n capacity p"
proof -
  have "pfire_all evs p = Some q \<Longrightarrow> pstep\<^sup>*\<^sup>* p q" for p q
    by (induction evs arbitrary: p) (auto split: option.splits intro: pfire_sound converse_rtranclp_into_rtranclp)
  then show "pfire_all evs (start_pool cfg n capacity) = Some p \<Longrightarrow> pool_reachable cfg n capacity p"
    by (simp add: pool_reachable_def)
qed

section \<open>Runs of a pool of two workers\<close>

definition ex_both_up :: "pool_event list" where
  "ex_both_up = [PWork 0 ESpawn, PWork 1 ESpawn]"

definition ex_place :: "nat \<Rightarrow> nat \<Rightarrow> pool_event list" where
  "ex_place tag i = [PPick (ex_msg tag), PPickNext, PPickDone, PWork i ERegister, PWork i ESent]"

text \<open>Two messages, each going to the idle worker, and the scan for a third one.\<close>

definition ex_spread :: "pool_event list" where
  "ex_spread = ex_both_up @ ex_place 7 0 @ ex_place 8 1 @
     [PWork 0 (ERead (HDone (ex_done 1))), PWork 0 ESettled, PPick (ex_msg 9), PPickNext]"

text \<open>A shutdown that stops the first worker and kills the second.\<close>

definition ex_pool_shutdown :: "pool_event list" where
  "ex_pool_shutdown = ex_both_up @ ex_place 7 0 @ ex_place 8 1 @
     [PWork 0 (ERead (HDone (ex_done 1))), PWork 0 ESettled, PShutdown, PClose, PWork 0 ECloseStop, PCloseNext,
      PClose, PWork 1 ECloseStop, PCloseNext, PCloseNext,
      PWork 0 (EExit 0), PWork 0 EReadEnd, PWork 0 EEndedStop, PWork 0 EWaited, PWork 0 EStaleEnd, PWaited,
      PGraceOver, PKill, PWork 1 EReadEnd, PWork 1 EEndedStop, PWork 1 EWaited, PWork 1 (EStale 0),
      PWork 1 EStaleEnd, PWaited, PWaited]"

definition ex_pool :: "pool_event list \<Rightarrow> pool_sys" where
  "ex_pool evs = the (pfire_all evs (start_pool ex_cfg 2 1))"

lemma ex_pool_reachable:
  assumes "pfire_all evs (start_pool ex_cfg 2 1) \<noteq> None"
  shows "pool_reachable ex_cfg 2 1 (ex_pool evs)"
  using assms by (auto simp: ex_pool_def intro: pool_reachable_by)

lemma ex_spread_runs: "pfire_all ex_spread (start_pool ex_cfg 2 1) \<noteq> None"
  by code_simp

lemma ex_pool_shutdown_runs: "pfire_all ex_pool_shutdown (start_pool ex_cfg 2 1) \<noteq> None"
  by code_simp

lemma ex_pool_shutdown_given: "map (\<lambda>s. length (s_given s)) (ps_ws (ex_pool ex_pool_shutdown)) = [1, 1]"
  by code_simp

end
