(* ===== verification/Pool_Properties.thy ===== *)
theory Pool_Properties
  imports Pool_Exec
begin

text \<open>
  What the pool promises (\<open>internal/worker/pool.go\<close>), over every reachable state of the pool machine, each with
  a concrete run of a pool of two workers.
\<close>

lemma pool_workers:
  assumes "pool_reachable cfg n capacity p" "s \<in> set (ps_ws p)"
  obtains i where "i < length (ps_ws p)" "ps_ws p ! i = s" "reachable i cfg (at_least_one capacity) s"
  using assms(1) [THEN pool_reachable_inv] assms(2)
  by (auto simp: pool_inv_def all_reachable_def in_set_conv_nth)

lemma pool_length: "pool_reachable cfg n capacity p \<Longrightarrow> length (ps_ws p) = nat (at_least_one n)"
  using pool_reachable_inv by (auto simp: pool_inv_def all_reachable_def)

section \<open>Placing a message\<close>

text \<open>\<open>leastLoaded\<close> picks a worker of the pool with the fewest messages in flight, the first of those when
  several tie.\<close>

lemma leastLoaded_is_first_least:
  assumes "loads \<noteq> []"
  shows "leastLoaded loads < length loads \<and> loads ! leastLoaded loads = Min (set loads) \<and>
    (\<forall>j < leastLoaded loads. loads ! leastLoaded loads < loads ! j)"
proof -
  obtain n where least: "least_of (leastLoaded loads, n) loads"
    by (rule least_of_leastLoaded [OF assms])
  have "Min (set loads) = n"
    using least by (intro Min_eqI) (auto simp: least_of_def in_set_conv_nth)
  then show ?thesis
    using least by (auto simp: least_of_def)
qed

text \<open>C18: the counts of the scan are read one worker at a time while the workers go on settling. Still, at the
  moment \<open>Dispatch\<close> hands the message over, the chosen worker is of the pool and its load is at most the count
  read for each worker: loads only fall between the reads and the handoff.\<close>

theorem pool_places_on_least_loaded:
  assumes "pool_reachable cfg n capacity p" "ps_pick p = PScan d best seen" "length seen = length (ps_ws p)"
  shows "fst best < length (ps_ws p) \<and> (\<forall>c \<in> set seen. load_of (ps_ws p ! fst best) \<le> c) \<and>
    (\<forall>s \<in> set (ps_ws p). s_disp s = DIdle)"
proof -
  have scan: "least_of best seen" "\<forall>j < length seen. load_of (ps_ws p ! j) \<le> seen ! j"
    "\<forall>s \<in> set (ps_ws p). s_disp s = DIdle"
    using pool_reachable_inv [OF assms(1)] assms(2) by (auto simp: pool_inv_def scan_ok_def)
  then have "fst best < length seen" "load_of (ps_ws p ! fst best) \<le> snd best"
    by (auto simp: least_of_def)
  moreover have "\<forall>c \<in> set seen. snd best \<le> c"
    using scan(1) by (auto simp: least_of_def in_set_conv_nth)
  ultimately show ?thesis
    using scan(3) assms(3) by fastforce
qed

theorem pool_places_on_least_loaded_witness:
  "load_of (ps_ws (ex_pool ex_spread) ! 0) \<le> 0 \<and> list_all (\<lambda>s. s_disp s = DIdle) (ps_ws (ex_pool ex_spread))"
proof -
  have "ps_pick (ex_pool ex_spread) = PScan (ex_msg 9) (0, 0) [0, 1]" "length (ps_ws (ex_pool ex_spread)) = 2"
    by code_simp+
  then show ?thesis
    using pool_places_on_least_loaded [OF ex_pool_reachable [OF ex_spread_runs]] by (simp add: list_all_iff)
qed

text \<open>At most one \<open>Dispatch\<close> of the pool is under way at a time, as the serial consumer has it.\<close>

lemma pool_one_dispatch:
  assumes "pool_reachable cfg n capacity p" "i < length (ps_ws p)" "j < length (ps_ws p)"
    and "s_disp (ps_ws p ! i) \<noteq> DIdle" "s_disp (ps_ws p ! j) \<noteq> DIdle"
  shows "i = j"
  using pool_reachable_inv [OF assms(1)] assms(2-) by (auto simp: pool_inv_def one_dispatch_def)

section \<open>Bounds\<close>

lemma sum_list_bound: "\<forall>x \<in> set xs. f x \<le> (c :: nat) \<Longrightarrow> sum_list (map f xs) \<le> length xs * c"
  by (induction xs) auto

lemma pool_load_bound:
  assumes "pool_reachable cfg n capacity p" "s \<in> set (ps_ws p)" "length (s_given s) < 2 ^ 64"
  shows "load_of s \<le> nat (at_least_one capacity)"
proof -
  obtain i where "reachable i cfg (at_least_one capacity) s"
    using pool_workers [OF assms(1,2)] by blast
  then show ?thesis
    using reachable_few [of i cfg "at_least_one capacity" s] reachable_cap assms(3)
    by (auto simp: winv_def within_cap_def outstanding_def at_least_one_def split: if_splits)
qed

text \<open>C17: the pool never has more than size times capacity messages in flight, with a size or capacity
  below one taken as one.\<close>

theorem pool_within_capacity:
  assumes "pool_reachable cfg n capacity p" "\<forall>s \<in> set (ps_ws p). length (s_given s) < 2 ^ 64"
  shows "int (sum_list (map (\<lambda>s. outstanding (s_w s)) (ps_ws p))) \<le> max 1 n * max 1 capacity"
proof -
  have "sum_list (map (\<lambda>s. outstanding (s_w s)) (ps_ws p)) \<le> nat (at_least_one n) * nat (at_least_one capacity)"
    using sum_list_bound [of "ps_ws p" "\<lambda>s. outstanding (s_w s)" "nat (at_least_one capacity)"]
      pool_load_bound [OF assms(1)] assms(2) pool_length [OF assms(1)] by simp
  then have "int (sum_list (map (\<lambda>s. outstanding (s_w s)) (ps_ws p))) \<le> int (nat (at_least_one n) * nat (at_least_one capacity))"
    by linarith
  also have "\<dots> = max 1 n * max 1 capacity"
    by (simp add: at_least_one_def max_def)
  finally show ?thesis .
qed

lemma ex_spread_few: "\<forall>s \<in> set (ps_ws (ex_pool ex_spread)). length (s_given s) < 2 ^ 64"
proof -
  have "map (\<lambda>s. length (s_given s)) (ps_ws (ex_pool ex_spread)) = [1, 1]"
    by code_simp
  then have "\<forall>k \<in> set (map (\<lambda>s. length (s_given s)) (ps_ws (ex_pool ex_spread))). k = 1"
    by simp
  then show ?thesis
    by auto
qed

theorem pool_within_capacity_witness:
  "int (sum_list (map (\<lambda>s. outstanding (s_w s)) (ps_ws (ex_pool ex_spread)))) \<le> max 1 2 * max 1 1"
  by (rule pool_within_capacity [OF ex_pool_reachable [OF ex_spread_runs] ex_spread_few])

section \<open>Settlement across the pool\<close>

abbreviation given_tags :: "sys \<Rightarrow> nat list" where
  "given_tags s \<equiv> map (d_tag \<circ> snd) (s_given s)"

abbreviation settled_tags :: "sys \<Rightarrow> nat list" where
  "settled_tags s \<equiv> map (fst \<circ> snd) (s_settled s)"

lemma concat_submset:
  "\<forall>x \<in> set xs. mset (f x) \<subseteq># mset (g x) \<Longrightarrow> mset (concat (map f xs)) \<subseteq># mset (concat (map g xs))"
  by (induction xs) (auto intro: subset_mset.add_mono)

lemma pool_settled_submset:
  assumes "pool_reachable cfg n capacity p" "\<forall>s \<in> set (ps_ws p). length (s_given s) < 2 ^ 64"
  shows "mset (concat (map settled_tags (ps_ws p))) \<subseteq># mset (concat (map given_tags (ps_ws p)))"
proof -
  have "mset (settled_tags s) \<subseteq># mset (given_tags s)" if mem: "s \<in> set (ps_ws p)" for s
  proof -
    obtain i where "reachable i cfg (at_least_one capacity) s"
      using pool_workers [OF assms(1) mem] by blast
    then show ?thesis
      using settled_tags_subset reachable_few assms(2) mem by blast
  qed
  then show ?thesis
    by (intro concat_submset) blast
qed

text \<open>Across the whole pool, whichever workers the messages were placed on, a message is settled at most once
  and only if some worker was handed it.\<close>

lemma pool_settles_once:
  assumes "pool_reachable cfg n capacity p" "\<forall>s \<in> set (ps_ws p). length (s_given s) < 2 ^ 64"
    and "distinct (concat (map (\<lambda>s. map (d_tag \<circ> snd) (s_given s)) (ps_ws p)))"
  shows "distinct (concat (map (\<lambda>s. map (fst \<circ> snd) (s_settled s)) (ps_ws p))) \<and>
    set (concat (map (\<lambda>s. map (fst \<circ> snd) (s_settled s)) (ps_ws p))) \<subseteq>
      set (concat (map (\<lambda>s. map (d_tag \<circ> snd) (s_given s)) (ps_ws p)))"
  using distinct_submset [OF assms(3) pool_settled_submset [OF assms(1,2)]] set_mset_mono [OF pool_settled_submset [OF assms(1,2)]]
  by (simp only: set_mset_mset)

lemma ex_pool_shutdown_few: "\<forall>s \<in> set (ps_ws (ex_pool ex_pool_shutdown)). length (s_given s) < 2 ^ 64"
proof -
  have "\<forall>k \<in> set (map (\<lambda>s. length (s_given s)) (ps_ws (ex_pool ex_pool_shutdown))). k = 1"
    by (simp add: ex_pool_shutdown_given)
  then show ?thesis
    by auto
qed

section \<open>Shutdown\<close>

lemma stopped_empty:
  assumes "winv s" "whist s" "w_stopped (s_w s)"
  shows "w_cur (s_w s) = None" "w_msgs (s_w s) = []" "s_sup s = SStopped"
  using assms by (auto simp: winv_def cur_agrees_def whist_def stop_hist_def)

text \<open>C12: when \<open>Shutdown\<close> returns, every worker was asked to close and has stopped: no process is live and nothing is
  in flight, so what was handed over is settled, or is about to be by a timeout callback or \<open>Dispatch\<close> call
  already under way.\<close>

theorem shutdown_returns_all_settled:
  assumes "pool_reachable cfg n capacity p" "ps_shut p = ShReturned" "s \<in> set (ps_ws p)"
    and "length (s_given s) < 2 ^ 64"
  shows "w_closing (s_w s) \<and> w_stopped (s_w s) \<and> w_cur (s_w s) = None \<and> w_msgs (s_w s) = [] \<and>
    mset (map given_entry (s_given s)) =
      disp_holds (s_disp s) + timers_hold (s_timers s) + mset (map settled_entry (s_settled s))"
proof -
  obtain i where i: "i < length (ps_ws p)" "ps_ws p ! i = s" "reachable i cfg (at_least_one capacity) s"
    using pool_workers [OF assms(1,3)] by blast
  have inv: "winv s" "whist s"
    using reachable_few [OF i(3) assms(4)] by auto
  have "w_closing (s_w s)" "w_stopped (s_w s)"
    using pool_reachable_inv [OF assms(1)] assms(2) i(1,2)
    by (auto simp: pool_inv_def closed_asked_def waited_stopped_def)
  then show ?thesis
    using stopped_empty [OF inv] inv(1) by (auto simp: winv_def conserved_def held_def)
qed

theorem shutdown_returns_all_settled_witness:
  "w_closing (s_w (ps_ws (ex_pool ex_pool_shutdown) ! 1)) \<and> w_stopped (s_w (ps_ws (ex_pool ex_pool_shutdown) ! 1)) \<and>
    w_cur (s_w (ps_ws (ex_pool ex_pool_shutdown) ! 1)) = None \<and>
    w_msgs (s_w (ps_ws (ex_pool ex_pool_shutdown) ! 1)) = [] \<and>
    mset (map given_entry (s_given (ps_ws (ex_pool ex_pool_shutdown) ! 1))) =
      disp_holds (s_disp (ps_ws (ex_pool ex_pool_shutdown) ! 1)) +
      timers_hold (s_timers (ps_ws (ex_pool ex_pool_shutdown) ! 1)) +
      mset (map settled_entry (s_settled (ps_ws (ex_pool ex_pool_shutdown) ! 1)))"
proof -
  have member: "ps_ws (ex_pool ex_pool_shutdown) ! 1 \<in> set (ps_ws (ex_pool ex_pool_shutdown))"
    by (rule nth_mem) code_simp
  have returned: "ps_shut (ex_pool ex_pool_shutdown) = ShReturned"
    by code_simp
  show ?thesis
    by (rule shutdown_returns_all_settled [OF ex_pool_reachable [OF ex_pool_shutdown_runs] returned member
          bspec [OF ex_pool_shutdown_few member]])
qed

section \<open>Waiting beside an idle worker\<close>

text \<open>The open \<open>Dispatch\<close> call waits on worker \<open>k\<close>, which has no live process and does not refuse.\<close>

definition waits_on :: "nat \<Rightarrow> delivery \<Rightarrow> pool_sys \<Rightarrow> bool" where
  "waits_on k d p \<longleftrightarrow> k < length (ps_ws p) \<and> ps_pick p = PIdle \<and> s_disp (ps_ws p ! k) = DWait d \<and>
     w_cur (s_w (ps_ws p ! k)) = None \<and> \<not> refuses (s_ctx (ps_ws p ! k)) (s_w (ps_ws p ! k)) \<and>
     (\<forall>i < length (ps_ws p). i \<noteq> k \<longrightarrow> s_disp (ps_ws p ! i) = DIdle)"

text \<open>The pool once every worker but the first has its process.\<close>

definition rest_up :: "config \<Rightarrow> int \<Rightarrow> int \<Rightarrow> nat \<Rightarrow> pool_sys" where
  "rest_up cfg n capacity k = (start_pool cfg n capacity)
     \<lparr>ps_ws := map (\<lambda>i. if 0 < i \<and> i < k then spawned (init_sys i cfg (at_least_one capacity))
        else init_sys i cfg (at_least_one capacity)) [0..<nat (at_least_one n)]\<rparr>"

lemma rest_can_spawn:
  assumes "c_command cfg \<noteq> []" "k \<le> nat (at_least_one n)"
  shows "pstep\<^sup>*\<^sup>* (start_pool cfg n capacity) (rest_up cfg n capacity k)"
  using assms(2)
proof (induction k)
  case 0
  have "rest_up cfg n capacity 0 = start_pool cfg n capacity"
    by (simp add: rest_up_def start_pool_def)
  then show ?case
    by simp
next
  case (Suc k)
  let ?p = "rest_up cfg n capacity k" and ?s = "init_sys k cfg (at_least_one capacity)"
  have k: "k < length (ps_ws ?p)" "ps_ws ?p ! k = ?s"
    using Suc.prems by (simp_all add: rest_up_def)
  have "own_step ?s (spawned ?s)"
    using assms(1) spawn_ok [of ?s] by (simp add: own_step_def init_sys_def can_spawn_def newWorker_def spawned_def)
  then have "pstep ?p (set_worker k (if 0 < k then spawned ?s else ?s) ?p)" if "0 < k"
    using work [OF k(1), of "spawned ?s"] k(2) that by simp
  moreover have "rest_up cfg n capacity (Suc k) = (if 0 < k then set_worker k (spawned ?s) ?p else ?p)"
    using k by (auto simp: rest_up_def set_worker_def start_pool_def intro!: nth_equalityI simp: nth_list_update less_Suc_eq)
  ultimately show ?case
    using Suc by (cases "0 < k") (auto intro: rtranclp.rtrancl_into_rtrancl)
qed

lemma scan_of_zeros:
  assumes "\<forall>s \<in> set (ps_ws p). load_of s = 0 \<and> s_disp s = DIdle" "ps_pick p = PIdle"
    and "1 \<le> m" "m \<le> length (ps_ws p)"
  shows "pstep\<^sup>*\<^sup>* p (p\<lparr>ps_pick := PScan d (0, 0) (replicate m 0)\<rparr>)"
  using assms(3,4)
proof (induction m rule: dec_induct)
  case base
  have "ps_ws p ! 0 \<in> set (ps_ws p)"
    using base by (cases "ps_ws p") simp_all
  then have "load_of (ps_ws p ! 0) = 0" "no_dispatch p"
    using assms(1) by (auto simp: no_dispatch_def)
  then show ?case
    using pick_first [of p 0 d] assms(2) by simp
next
  case (step m)
  let ?p = "p\<lparr>ps_pick := PScan d (0, 0) (replicate m 0)\<rparr>"
  have "ps_ws p ! m \<in> set (ps_ws p)"
    using step.prems by (intro nth_mem) simp
  then have "load_of (ps_ws p ! m) = 0"
    using assms(1) by auto
  then have "pstep ?p (?p\<lparr>ps_pick := PScan d (0, 0) (replicate (Suc m) 0)\<rparr>)"
    using pick_next [of ?p d "(0, 0)" "replicate m 0" 0] step.prems by (simp add: better_def replicate_append_same)
  then show ?case
    using step by (auto intro: rtranclp.rtrancl_into_rtrancl)
qed

lemma can_wait_beside_idle:
  assumes "c_command cfg \<noteq> []" "2 \<le> n"
  shows "\<exists>p. pool_reachable cfg n capacity p \<and> length (ps_ws p) = nat n \<and> waits_on 0 d p \<and>
    (\<forall>i < length (ps_ws p). 0 < i \<longrightarrow> has_slot (s_w (ps_ws p ! i)))"
proof -
  define N where "N = nat (at_least_one n)"
  define p where "p = rest_up cfg n capacity N"
  define q where "q = (set_worker 0 ((ps_ws p ! 0)\<lparr>s_disp := DWait d\<rparr>) p)\<lparr>ps_pick := PIdle\<rparr>"
  have N: "2 \<le> N" "length (ps_ws p) = N" "N = nat n"
    using assms(2) by (simp_all add: N_def p_def rest_up_def at_least_one_def)
  have ws: "ps_ws p ! i = (if i = 0 then init_sys i cfg (at_least_one capacity) else spawned (init_sys i cfg (at_least_one capacity)))"
    if "i < N" for i
    using that by (auto simp: p_def rest_up_def N_def)
  have idle: "\<forall>s \<in> set (ps_ws p). load_of s = 0 \<and> s_disp s = DIdle"
    by (auto simp: p_def rest_up_def outstanding_def spawned_def init_sys_def newWorker_def)
  have pick: "ps_pick p = PIdle"
    by (simp add: p_def rest_up_def start_pool_def)
  have "pstep\<^sup>*\<^sup>* (start_pool cfg n capacity) p"
    using rest_can_spawn [OF assms(1)] by (simp add: p_def N_def)
  also have "pstep\<^sup>*\<^sup>* p (p\<lparr>ps_pick := PScan d (0, 0) (replicate N 0)\<rparr>)"
    using N by (intro scan_of_zeros idle pick) simp_all
  also have "pstep (p\<lparr>ps_pick := PScan d (0, 0) (replicate N 0)\<rparr>) q"
    using pick_done [of "p\<lparr>ps_pick := PScan d (0, 0) (replicate N 0)\<rparr>" d "(0, 0)" "replicate N 0" 0] N
    by (simp add: q_def set_worker_def)
  finally have "pool_reachable cfg n capacity q"
    by (simp add: pool_reachable_def)
  moreover have "waits_on 0 d q" "\<forall>i < length (ps_ws q). 0 < i \<longrightarrow> has_slot (s_w (ps_ws q ! i))"
    using N ws by (auto simp: q_def waits_on_def refuses_def has_slot_def spawned_def init_sys_def newWorker_def nth_list_update)
  ultimately show ?thesis
    using N by (intro exI [of _ q]) (simp add: q_def)
qed

lemma waits_on_step:
  assumes "waits_on k d p" "pstep p q"
  shows "waits_on k d q \<or> w_cur (s_w (ps_ws q ! k)) \<noteq> None \<or> refuses (s_ctx (ps_ws q ! k)) (s_w (ps_ws q ! k))"
  using assms(2)
proof (cases rule: pstep.cases)
  case (work i s)
  show ?thesis
  proof (cases "i = k")
    case True
    then have "wstep (ps_ws p ! k) s" "k < length (ps_ws p)"
      using work assms(1) by (auto simp: own_step_def)
    then show ?thesis
      using work True assms(1)
      by (cases rule: wstep.cases) (auto simp: waits_on_def step_defs claim_iffs refuses_def has_slot_def nth_update_if)
  next
    case False
    then show ?thesis
      using work assms(1) by (auto simp: waits_on_def own_step_def nth_update_if)
  qed
next
  case (pick_first n d')
  then show ?thesis
    using assms(1) by (auto simp: waits_on_def no_dispatch_def)
next
  case (wait_kill i s)
  then show ?thesis
    using assms(1) kill_frame [OF wait_kill(5-7)] by (auto simp: waits_on_def nth_update_if refuses_def)
qed (use assms(1) in \<open>auto simp: waits_on_def nth_update_if beginClose_def refuses_def\<close>)

text \<open>C22: \<open>Dispatch\<close> can wait although every other worker of the pool is idle. The count of a worker whose process is
  not up is zero, so in every pool of at least two workers with a command, of any capacity, any message can be
  placed on one that is still spawning while all others have a live process and a free slot. Whatever the rest of
  the pool does, the message then stays there, with no worker given another one, until that worker gets its process
  or is closed or cancelled.\<close>

theorem dispatch_waits_beside_idle_worker:
  "(\<forall>cfg n capacity d. c_command cfg \<noteq> [] \<and> 2 \<le> n \<longrightarrow>
      (\<exists>p. pool_reachable cfg n capacity p \<and> length (ps_ws p) = nat n \<and> waits_on 0 d p \<and>
         (\<forall>i < length (ps_ws p). 0 < i \<longrightarrow> has_slot (s_w (ps_ws p ! i))))) \<and>
   (\<forall>k d p q. waits_on k d p \<and> pstep p q \<longrightarrow>
      waits_on k d q \<or> w_cur (s_w (ps_ws q ! k)) \<noteq> None \<or> refuses (s_ctx (ps_ws q ! k)) (s_w (ps_ws q ! k)))"
  using can_wait_beside_idle waits_on_step by blast

theorem dispatch_waits_beside_idle_worker_witness:
  "\<exists>p q. pool_reachable ex_cfg 2 1 p \<and> waits_on 0 (ex_msg 7) p \<and> has_slot (s_w (ps_ws p ! 1)) \<and> pstep p q \<and>
     (waits_on 0 (ex_msg 7) q \<or> w_cur (s_w (ps_ws q ! 0)) \<noteq> None \<or> refuses (s_ctx (ps_ws q ! 0)) (s_w (ps_ws q ! 0)))"
proof -
  have "c_command ex_cfg \<noteq> []"
    by (simp add: ex_cfg_def)
  then obtain p where p: "pool_reachable ex_cfg 2 1 p" "length (ps_ws p) = 2" "waits_on 0 (ex_msg 7) p"
      "\<forall>i < length (ps_ws p). 0 < i \<longrightarrow> has_slot (s_w (ps_ws p ! i))"
    using conjunct1 [OF dispatch_waits_beside_idle_worker, rule_format, of ex_cfg 2 1 "ex_msg 7"] by auto
  define q where "q = p\<lparr>ps_ws := map (\<lambda>s. s\<lparr>s_ctx := True\<rparr>) (ps_ws p)\<rparr>"
  have step: "pstep p q"
    unfolding q_def by (rule cancel)
  then have "waits_on 0 (ex_msg 7) q \<or> w_cur (s_w (ps_ws q ! 0)) \<noteq> None \<or> refuses (s_ctx (ps_ws q ! 0)) (s_w (ps_ws q ! 0))"
    using conjunct2 [OF dispatch_waits_beside_idle_worker] p(3) by blast
  moreover have "has_slot (s_w (ps_ws p ! 1))"
    using p(2,4) by simp
  ultimately show ?thesis
    using p(1,3) step by blast
qed

end
