(* ===== verification/Go_Float.thy ===== *)
theory Go_Float
  imports Go_Json
begin

text \<open>
  Go's \<open>float64\<close> as \<open>encoding/json\<close> reads and writes it, over its 64 bits and exact rational arithmetic:
  \<open>parse_float\<close> is \<open>strconv.ParseFloat\<close> on a JSON number literal (the nearest float, ties to even, an
  error on overflow) and \<open>format_float\<close> the float encoder (the shortest decimal that reads back as the
  same float, in the exponent form below 1e-6 and from 1e21 on, an error for infinities and NaN).
\<close>

section \<open>Reading\<close>

fun bit_length :: "nat \<Rightarrow> nat" where
  "bit_length n = (if n = 0 then 0 else Suc (bit_length (n div 2)))"

declare bit_length.simps [simp del]

definition pow_nat :: "nat \<Rightarrow> int \<Rightarrow> nat" where
  "pow_nat b k = b ^ nat k"

text \<open>The ratio \<open>num / den\<close> scaled by a power of \<open>b\<close>, as a numerator and a denominator.\<close>

definition scaled :: "nat \<Rightarrow> int \<Rightarrow> nat \<times> nat \<Rightarrow> nat \<times> nat" where
  "scaled b k r = (fst r * pow_nat b k, snd r * pow_nat b (- k))"

definition round_even :: "nat \<times> nat \<Rightarrow> nat" where
  "round_even r =
     (let q = fst r div snd r; m = 2 * (fst r mod snd r)
      in if m < snd r then q else if snd r < m then Suc q else if even q then q else Suc q)"

text \<open>The bits of the float nearest to a positive ratio. The unit of the last place is \<open>2 ^ e\<close>; a significand that
  rounds up to \<open>2 ^ 53\<close> carries into the exponent by itself.\<close>

definition ulp_exp :: "nat \<times> nat \<Rightarrow> int" where
  "ulp_exp r =
     (let e = int (bit_length (fst r)) - int (bit_length (snd r)) - 52;
          q = (case scaled 2 (- e) r of (n, d) \<Rightarrow> n div d)
      in max (if q < 2 ^ 52 then e - 1 else e) (- 1074))"

definition nearest :: "nat \<times> nat \<Rightarrow> nat" where
  "nearest r = (if fst r = 0 then 0
     else round_even (scaled 2 (- ulp_exp r) r) + nat (ulp_exp r + 1074) * 2 ^ 52)"

definition inf_bits :: nat where
  "inf_bits = 2047 * 2 ^ 52"

definition sign_bit :: nat where
  "sign_bit = 2 ^ 63"

text \<open>A literal: its digits without the point, and its power of ten.\<close>

definition split_exp :: "string \<Rightarrow> string \<times> int" where
  "split_exp s =
     (case dropWhile (\<lambda>c. c \<noteq> CHR ''e'' \<and> c \<noteq> CHR ''E'') s of
        [] \<Rightarrow> (s, 0)
      | _ # t \<Rightarrow> (takeWhile (\<lambda>c. c \<noteq> CHR ''e'' \<and> c \<noteq> CHR ''E'') s,
          (case sign_split t of (neg, ds) \<Rightarrow> if neg then - int (nat_of_dec ds) else int (nat_of_dec ds))))"

definition decimal :: "string \<Rightarrow> nat \<times> int" where
  "decimal s =
     (case split_exp s of (m, e) \<Rightarrow>
        (let whole = takeWhile (\<lambda>c. c \<noteq> CHR ''.'') m; frac = drop (Suc (length whole)) m
         in (nat_of_dec (whole @ frac), e - int (length frac))))"

definition parse_float :: "string \<Rightarrow> 64 word option" where
  "parse_float s =
     (case sign_split s of (neg, t) \<Rightarrow>
        (case decimal t of (m, e) \<Rightarrow>
           (let bits = nearest (scaled 10 e (m, 1))
            in if inf_bits \<le> bits then None
               else Some (word_of_nat (if neg then bits + sign_bit else bits)))))"

section \<open>Writing\<close>

text \<open>The exact ratio of a finite float without its sign.\<close>

definition magnitude :: "nat \<Rightarrow> nat \<times> nat" where
  "magnitude bits =
     (let e = bits div 2 ^ 52; f = bits mod 2 ^ 52
      in if e = 0 then scaled 2 (- 1074) (f, 1) else scaled 2 (int e - 1075) (f + 2 ^ 52, 1))"

text \<open>The position of the decimal point: the least \<open>p\<close> with the ratio below \<open>10 ^ p\<close>.\<close>

definition point :: "nat \<times> nat \<Rightarrow> int" where
  "point r =
     (let l = int (length (dec_of_nat (fst r))) - int (length (dec_of_nat (snd r)));
          s = scaled 10 (- l) r
      in if fst s < snd s then l else l + 1)"

definition with_digits :: "nat \<times> nat \<Rightarrow> nat \<Rightarrow> nat \<times> int" where
  "with_digits r n = (let k = point r - int n in (round_even (scaled 10 (- k) r), k))"

definition reads_back :: "nat \<Rightarrow> nat \<times> int \<Rightarrow> bool" where
  "reads_back bits d \<longleftrightarrow> nearest (scaled 10 (snd d) (fst d, 1)) = bits"

text \<open>Seventeen digits always read back, so the search ends there.\<close>

fun shortest :: "nat \<Rightarrow> nat list \<Rightarrow> nat \<times> int" where
  "shortest bits [] = with_digits (magnitude bits) 17"
| "shortest bits (n # ns) =
     (if reads_back bits (with_digits (magnitude bits) n) then with_digits (magnitude bits) n else shortest bits ns)"

definition strip_zeros :: "string \<Rightarrow> string" where
  "strip_zeros s = rev (dropWhile (\<lambda>c. c = CHR ''0'') (rev s))"

definition zeros :: "int \<Rightarrow> string" where
  "zeros k = replicate (nat k) CHR ''0''"

text \<open>\<open>%e\<close> without the zero that pads a one-digit exponent, and \<open>%f\<close>; \<open>dp\<close> is where the point stands.\<close>

definition fmt_e :: "string \<Rightarrow> int \<Rightarrow> string" where
  "fmt_e ds dp = hd ds # (if tl ds = [] then [] else CHR ''.'' # tl ds) @ CHR ''e'' #
     (if dp - 1 < 0 then CHR ''-'' # dec_of_nat (nat (1 - dp)) else CHR ''+'' # dec_of_nat (nat (dp - 1)))"

definition fmt_f :: "string \<Rightarrow> int \<Rightarrow> string" where
  "fmt_f ds dp =
     (if dp \<le> 0 then CHR ''0'' # CHR ''.'' # zeros (- dp) @ ds
      else if int (length ds) \<le> dp then ds @ zeros (dp - int (length ds))
      else take (nat dp) ds @ CHR ''.'' # drop (nat dp) ds)"

text \<open>The float encoder's choice of the form: \<open>dp \<le> -6\<close> means below 1e-6 and \<open>22 \<le> dp\<close> at least 1e21.\<close>

definition float_text :: "nat \<Rightarrow> string" where
  "float_text bits =
     (if bits = 0 then ''0''
      else (let (m, k) = shortest bits [1..<17]; ds = dec_of_nat m; dp = k + int (length ds)
            in if dp \<le> - 6 \<or> 22 \<le> dp then fmt_e (strip_zeros ds) dp else fmt_f (strip_zeros ds) dp))"

definition format_float :: "64 word \<Rightarrow> string option" where
  "format_float w =
     (let bits = unat w mod sign_bit
      in if inf_bits \<le> bits then None
         else Some (if sign_bit \<le> unat w then CHR ''-'' # float_text bits else float_text bits))"

end
