(* ===== verification/Go_Base64.thy ===== *)
theory Go_Base64
  imports Go_Strings
begin

text \<open>
  \<open>encoding/base64\<close>'s \<open>StdEncoding\<close>, which carries the inner message bytes through the control
  envelope's dict (and a \<open>[]byte\<close> value through JSON): encoding with padding, and decoding as Go does
  it, line breaks ignored, padding required, bits after the last byte not checked. \<^term>\<open>None\<close>
  stands for \<open>CorruptInputError\<close>.
\<close>

section \<open>Alphabet\<close>

definition b64_char :: "nat \<Rightarrow> char" where
  "b64_char n =
     (if n < 26 then char_of (65 + n)
      else if n < 52 then char_of (71 + n)
      else if n < 62 then char_of (n - 4)
      else if n = 62 then CHR ''+''
      else CHR ''/'')"

definition b64_val :: "char \<Rightarrow> nat option" where
  "b64_val c =
     (let n = of_char c :: nat
      in if 65 \<le> n \<and> n \<le> 90 then Some (n - 65)
         else if 97 \<le> n \<and> n \<le> 122 then Some (n - 71)
         else if 48 \<le> n \<and> n \<le> 57 then Some (n + 4)
         else if c = CHR ''+'' then Some 62
         else if c = CHR ''/'' then Some 63
         else None)"

lemma of_char_b64_char:
  assumes "n < 62"
  shows "(of_char (b64_char n) :: nat) =
    (if n < 26 then 65 + n else if n < 52 then 71 + n else n - 4)"
  using assms by (simp add: b64_char_def of_char_of)

lemma b64_val_char [simp]: "n < 64 \<Longrightarrow> b64_val (b64_char n) = Some n"
proof (cases "n < 62")
  case True
  then show ?thesis
    by (simp add: b64_val_def of_char_b64_char Let_def) arith
next
  case False
  moreover assume "n < 64"
  ultimately have "n = 62 \<or> n = 63"
    by arith
  then show ?thesis
    by (auto simp: b64_val_def b64_char_def)
qed

lemma b64_val_less: "b64_val c = Some n \<Longrightarrow> n < 64"
  by (auto simp: b64_val_def Let_def split: if_splits)

lemma b64_val_pad [simp]: "b64_val CHR ''='' = None"
  by (simp add: b64_val_def)

lemma b64_char_not_pad [simp]: "n < 64 \<Longrightarrow> b64_char n \<noteq> CHR ''=''"
  by (metis b64_val_char b64_val_pad option.distinct(1))

definition is_newline :: "char \<Rightarrow> bool" where
  "is_newline c \<longleftrightarrow> c = CHR 0x0A \<or> c = CHR 0x0D"

lemma b64_val_newline: "is_newline c \<Longrightarrow> b64_val c = None"
  by (auto simp: is_newline_def b64_val_def)

lemma b64_char_not_newline [simp]: "n < 64 \<Longrightarrow> \<not> is_newline (b64_char n)"
  by (metis b64_val_char b64_val_newline option.distinct(1))

section \<open>Encoding and decoding\<close>

definition val3 :: "byte \<Rightarrow> byte \<Rightarrow> byte \<Rightarrow> nat" where
  "val3 a b c = 65536 * unat a + 256 * unat b + unat c"

fun b64_encode :: "bytes \<Rightarrow> string" where
  "b64_encode [] = []"
| "b64_encode [a] =
     [b64_char (val3 a 0 0 div 262144), b64_char (val3 a 0 0 div 4096 mod 64), CHR ''='', CHR ''='']"
| "b64_encode [a, b] =
     [b64_char (val3 a b 0 div 262144), b64_char (val3 a b 0 div 4096 mod 64),
      b64_char (val3 a b 0 div 64 mod 64), CHR ''='']"
| "b64_encode (a # b # c # r) =
     [b64_char (val3 a b c div 262144), b64_char (val3 a b c div 4096 mod 64),
      b64_char (val3 a b c div 64 mod 64), b64_char (val3 a b c mod 64)] @ b64_encode r"

definition val4 :: "nat \<Rightarrow> nat \<Rightarrow> nat \<Rightarrow> nat \<Rightarrow> nat" where
  "val4 w x y z = 262144 * w + 4096 * x + 64 * y + z"

definition out_bytes :: "nat \<Rightarrow> bytes" where
  "out_bytes v = map word_of_nat [v div 65536, v div 256 mod 256, v mod 256]"

fun b64_quanta :: "string \<Rightarrow> bytes option" where
  "b64_quanta [] = Some []"
| "b64_quanta (w # x # y # z # r) =
     (case (b64_val w, b64_val x) of
        (Some w', Some x') \<Rightarrow>
          if y = CHR ''='' then
            (if z = CHR ''='' \<and> r = [] then Some (take 1 (out_bytes (val4 w' x' 0 0))) else None)
          else (case b64_val y of
              None \<Rightarrow> None
            | Some y' \<Rightarrow>
                if z = CHR ''='' then
                  (if r = [] then Some (take 2 (out_bytes (val4 w' x' y' 0))) else None)
                else (case (b64_val z, b64_quanta r) of
                    (Some z', Some bs) \<Rightarrow> Some (out_bytes (val4 w' x' y' z') @ bs)
                  | _ \<Rightarrow> None))
      | _ \<Rightarrow> None)"
| "b64_quanta _ = None"

definition b64_decode :: "string \<Rightarrow> bytes option" where
  "b64_decode s = b64_quanta (filter (\<lambda>c. \<not> is_newline c) s)"

lemma val3_less: "val3 a b c < 16777216"
  using unat_byte_less [of a] unat_byte_less [of b] unat_byte_less [of c] by (simp add: val3_def)

lemma digits64:
  fixes v :: nat
  shows "262144 * (v div 262144) + 4096 * (v div 4096 mod 64) + 64 * (v div 64 mod 64) + v mod 64 = v"
proof -
  have "v div 262144 = v div 4096 div 64" "v div 4096 = v div 64 div 64"
    by (simp_all flip: div_mult2_eq)
  moreover have "64 * (v div 4096 div 64) + v div 4096 mod 64 = v div 4096"
    and "64 * (v div 64 div 64) + v div 64 mod 64 = v div 64"
    and "64 * (v div 64) + v mod 64 = v"
    by (simp_all add: mult_div_mod_eq)
  ultimately show ?thesis
    by linarith
qed

lemma val4_digits [simp]:
  "val4 (v div 262144) (v div 4096 mod 64) (v div 64 mod 64) (v mod 64) = v"
  unfolding val4_def by (rule digits64)

lemma out_bytes_val3 [simp]: "out_bytes (val3 a b c) = [a, b, c]"
proof -
  define m where "m = unat b + 256 * unat a"
  have split: "val3 a b c = unat c + 256 * m"
    by (simp add: val3_def m_def)
  then have low: "val3 a b c mod 256 = unat c" "val3 a b c div 256 = m"
    using unat_byte_less [of c] by simp_all
  moreover have "m mod 256 = unat b" "m div 256 = unat a"
    using unat_byte_less [of b] by (simp_all add: m_def)
  ultimately have "val3 a b c div 256 mod 256 = unat b" "val3 a b c div 256 div 256 = unat a"
    by simp_all
  moreover have "val3 a b c div 65536 = val3 a b c div 256 div 256"
    by (simp flip: div_mult2_eq)
  ultimately show ?thesis
    using low by (simp add: out_bytes_def)
qed

lemma val3_digit_less [simp]: "val3 a b c div 262144 < 64"
  using val3_less [of a b c] by simp

lemma pad1_digits: "val4 (val3 a 0 0 div 262144) (val3 a 0 0 div 4096 mod 64) 0 0 = val3 a 0 0"
  using digits64 [of "val3 a 0 0"] by (simp add: val3_def val4_def)

lemma pad2_digits:
  "val4 (val3 a b 0 div 262144) (val3 a b 0 div 4096 mod 64) (val3 a b 0 div 64 mod 64) 0 = val3 a b 0"
  using digits64 [of "val3 a b 0"] by (simp add: val3_def val4_def)

lemma b64_encode_no_newline: "c \<in> set (b64_encode bs) \<Longrightarrow> \<not> is_newline c"
  by (induction bs rule: b64_encode.induct) (auto simp: is_newline_def [of "CHR ''=''"])

lemma b64_quanta_encode: "b64_quanta (b64_encode bs) = Some bs"
proof (induction bs rule: b64_encode.induct)
  case (2 a)
  then show ?case
    by (simp add: pad1_digits)
next
  case (3 a b)
  then show ?case
    by (simp add: pad2_digits)
next
  case (4 a b c r)
  then show ?case
    by (simp del: val4_digits add: val4_digits [of "val3 a b c"])
qed simp

lemma b64_decode_encode: "b64_decode (b64_encode bs) = Some bs"
proof -
  have "filter (\<lambda>c. \<not> is_newline c) (b64_encode bs) = b64_encode bs"
    by (simp add: filter_id_conv b64_encode_no_newline)
  then show ?thesis
    by (simp add: b64_decode_def b64_quanta_encode)
qed

lemma length_b64_encode: "length (b64_encode bs) = 4 * ((length bs + 2) div 3)"
proof (induction bs rule: b64_encode.induct)
  case (4 a b c r)
  have "(length (a # b # c # r) + 2) div 3 = Suc ((length r + 2) div 3)"
    by simp
  with 4 show ?case
    by simp
qed simp_all

lemma b64_encode_inject: "b64_encode a = b64_encode b \<Longrightarrow> a = b"
  by (metis b64_decode_encode option.inject)

text \<open>Line breaks inside the text do not change what it decodes to.\<close>

lemma b64_decode_newlines: "is_newline c \<Longrightarrow> b64_decode (s @ c # t) = b64_decode (s @ t)"
  by (simp add: b64_decode_def)

end
