(* ===== verification/Go_Json_Roundtrip.thy ===== *)
theory Go_Json_Roundtrip
  imports Go_Json
begin

text \<open>
  Reading back what \<open>json_text\<close> writes: the lexer gives the tree's tokens (\<open>lex_text\<close>), the stack machine
  builds the tree from them (\<open>feed_toks\<close>), so \<open>json_parse (json_text v)\<close> is \<open>v\<close> with every invalid UTF-8
  byte replaced by U+FFFD, for a tree with valid number literals nested at most \<open>maxNestingDepth\<close> deep.
\<close>

section \<open>Strings\<close>

fun rune_ok :: "rune \<Rightarrow> bool" where
  "rune_ok (Valid t) \<longleftrightarrow> t \<noteq> [] \<and> utf8_len t = length t"
| "rune_ok (Invalid c) \<longleftrightarrow> True"

lemma runes_ok: "list_all rune_ok (runes s)"
proof (induction s rule: runes.induct)
  case (2 c cs)
  let ?k = "utf8_len (c # cs)"
  show ?case
  proof (cases "?k = 0")
    case False
    have "utf8_len (take ?k (c # cs) @ []) = ?k"
      using False by (intro utf8_len_take) simp
    then show ?thesis
      using 2 False utf8_len_le [of "c # cs"] by (auto simp: runes.simps(2) [of c cs])
  qed (use 2 in \<open>simp add: runes.simps(2) [of c cs]\<close>)
qed simp

lemma hex_digit_hex_char: "n < 16 \<Longrightarrow> hex_digit (hex_char n) = Some n"
  by (simp add: hex_digit_def Let_def of_char_hex_char split: if_splits)

lemma hex4_u00: "hex4 (CHR ''0'' # CHR ''0'' # hex_byte b @ rest) = Some (unat b)"
proof -
  have "hex_digit CHR ''0'' = Some 0"
    by (simp add: hex_digit_def)
  then show ?thesis
    by (simp add: hex_byte_def hex_digit_hex_char)
qed

lemma encode_rune_ascii: "code c < 128 \<Longrightarrow> encode_rune (code c) = [c]"
  by (simp add: encode_rune_def)

lemma encode_rune_fffd: "encode_rune 65533 = fix_rune (Invalid c)"
  by (simp add: encode_rune_def)

lemma map_option_twice: "map_option ((@) xs) (map_option ((@) ys) r) = map_option ((@) (xs @ ys)) r"
  by (cases r) simp_all

lemma append_single: "(@) [x] = (#) x"
  by (simp add: fun_eq_iff)

lemma unquote_u:
  assumes "hex4 ds = Some r" "\<not> is_surrogate r"
  shows "unquote (CHR 0x5C # CHR ''u'' # ds) = map_option ((@) (encode_rune r)) (unquote (drop 4 ds))"
  using assms by (simp add: unquote.simps(2))

lemma unquote_simple:
  assumes "simple_escape e = Some x"
  shows "unquote (CHR 0x5C # e # ds) = map_option ((@) [x]) (unquote ds)"
proof -
  have "e \<noteq> CHR ''u''"
    using assms by (auto simp: simple_escape_def split: if_splits)
  then show ?thesis
    using assms by (simp add: unquote.simps(2) append_single)
qed

lemma unquote_u00:
  assumes "code c < 128"
  shows "unquote (u00 c @ rest) = map_option ((@) [c]) (unquote rest)"
proof -
  have "unat (of_char c :: byte) = code c"
    by (rule unat_of_char_byte)
  moreover have "drop 4 (CHR ''0'' # CHR ''0'' # hex_byte (of_char c) @ rest) = rest"
    by (simp add: hex_byte_def)
  ultimately show ?thesis
    using unquote_u [of "CHR ''0'' # CHR ''0'' # hex_byte (of_char c) @ rest" "code c"] assms
    by (simp add: u00_def hex4_u00 is_surrogate_def encode_rune_ascii)
qed

lemma unquote_plain:
  assumes "0 < utf8_len s" "c \<in> set (take 1 s) \<Longrightarrow> c \<noteq> CHR 0x5C \<and> c \<noteq> CHR 0x22 \<and> 32 \<le> code c"
    and "s = c # cs"
  shows "unquote s = map_option ((@) (take (utf8_len s) s)) (unquote (drop (utf8_len s) s))"
  using assms by (simp add: unquote.simps(2) [of c cs])

lemma unquote_quote_ascii:
  assumes "code c < 128"
  shows "unquote (quote_ascii c @ rest) = map_option ((@) [c]) (unquote rest)"
proof -
  have plain: "unquote (c # rest) = map_option ((@) [c]) (unquote rest)"
    if "c \<noteq> CHR 0x5C" "c \<noteq> CHR 0x22" "32 \<le> code c"
    using that assms by (simp add: unquote.simps(2) [of c rest])
  show ?thesis
    using unquote_u00 [OF assms, of rest]
    by (auto simp: quote_ascii_def unquote_simple simple_escape_def not_less intro: plain)
qed

lemma unquote_fixed: "hex4 (w @ rest) = Some r \<Longrightarrow> length w = 4 \<Longrightarrow> \<not> is_surrogate r \<Longrightarrow>
    unquote (CHR 0x5C # CHR ''u'' # w @ rest) = map_option ((@) (encode_rune r)) (unquote rest)"
  using unquote_u [of "w @ rest" r] by simp

lemma hex4_constants:
  "hex4 (''2028'' @ rest) = Some 0x2028" "hex4 (''2029'' @ rest) = Some 0x2029" "hex4 (''fffd'' @ rest) = Some 65533"
  by (simp_all add: hex_digit_def)

lemma unquote_quote_rune:
  assumes "rune_ok r"
  shows "unquote (quote_rune r @ rest) = map_option ((@) (fix_rune r)) (unquote rest)"
proof (cases r)
  case (Invalid c)
  then show ?thesis
    using unquote_fixed [OF hex4_constants(3)] encode_rune_fffd [of c] by (simp add: is_surrogate_def)
next
  case (Valid t)
  then obtain c cs where t: "t = c # cs" "utf8_len t = length t"
    using assms by (cases t) auto
  consider "length t = 1" | "t = encode_rune 0x2028" | "t = encode_rune 0x2029"
    | "length t \<noteq> 1" "t \<noteq> encode_rune 0x2028" "t \<noteq> encode_rune 0x2029"
    by blast
  then show ?thesis
  proof cases
    case 1
    then have "code c < 128"
      using t by (auto simp: utf8_len.simps lead_def split: if_splits)
    then show ?thesis
      using 1 Valid t(1) unquote_quote_ascii [of c rest] by simp
  next
    case 2
    then show ?thesis
      using Valid unquote_fixed [OF hex4_constants(1)] by (simp add: encode_rune_def is_surrogate_def)
  next
    case 3
    then show ?thesis
      using Valid unquote_fixed [OF hex4_constants(2)] by (simp add: encode_rune_def is_surrogate_def)
  next
    case 4
    have "1 < utf8_len t"
      using 4(1) t by (cases cs) auto
    then have high: "128 \<le> code c"
      using utf8_len_high [of t c] t by simp
    then have "c \<noteq> CHR 0x5C" "c \<noteq> CHR 0x22"
      by auto
    have "utf8_len (t @ rest) = length t"
      using utf8_len_take [of t rest] t by simp
    then have "unquote (t @ rest) = map_option ((@) t) (unquote rest)"
      using unquote_plain [of "t @ rest" c "cs @ rest"] high t(1) by (simp add: \<open>c \<noteq> CHR 0x5C\<close> \<open>c \<noteq> CHR 0x22\<close>)
    then show ?thesis
      using 4 Valid by simp
  qed
qed

lemma unquote_quote: "unquote (quote_body s) = Some (sanitize s)"
proof -
  have "list_all rune_ok rs \<Longrightarrow>
      unquote (concat (map quote_rune rs)) = Some (concat (map fix_rune rs))" for rs
    by (induction rs) (simp_all add: unquote_quote_rune)
  then show ?thesis
    using runes_ok by (simp add: quote_body_def sanitize_def)
qed

section \<open>The lexer on strings\<close>

lemma map_option_append_Nil [simp]: "map_option ((@) []) r = r"
  by (cases r) simp_all

definition plain_byte :: "char \<Rightarrow> bool" where
  "plain_byte c \<longleftrightarrow> c \<noteq> CHR 0x22 \<and> c \<noteq> CHR 0x5C \<and> 32 \<le> code c"

lemma lex_plain: "list_all plain_byte t \<Longrightarrow> lex (LStr acc) (t @ rest) = lex (LStr (rev t @ acc)) rest"
  by (induction t arbitrary: acc) (simp_all add: plain_byte_def)

lemma lex_escape: "list_all plain_byte t \<Longrightarrow>
    lex (LStr acc) (CHR 0x5C # e # t @ rest) = lex (LStr (rev (CHR 0x5C # e # t) @ acc)) rest"
  by (simp add: lex_plain)

lemma plain_hex_char: "n < 16 \<Longrightarrow> plain_byte (hex_char n)"
  using of_char_hex_char [of n] by (auto simp: plain_byte_def split: if_splits)

lemma plain_hex_byte: "list_all plain_byte (hex_byte b)"
  using nibbles_less [of b] by (simp add: hex_byte_def plain_hex_char)

lemma plain_u00_tail: "list_all plain_byte (CHR ''0'' # CHR ''0'' # hex_byte b)"
  using plain_hex_byte [of b] by (simp add: plain_byte_def)

lemma lex_quote_ascii: "lex (LStr acc) (quote_ascii c @ rest) = lex (LStr (rev (quote_ascii c) @ acc)) rest"
proof -
  have esc: "lex (LStr acc) ([CHR 0x5C, e] @ rest) = lex (LStr (rev [CHR 0x5C, e] @ acc)) rest" for e
    using lex_escape [of "[]" acc e rest] by simp
  have "lex (LStr acc) (u00 c @ rest) = lex (LStr (rev (u00 c) @ acc)) rest"
    using lex_escape [OF plain_u00_tail, of acc "CHR ''u''" "of_char c" rest] by (simp add: u00_def)
  moreover have "lex (LStr acc) ([c] @ rest) = lex (LStr (rev [c] @ acc)) rest"
    if "c \<noteq> CHR 0x5C" "c \<noteq> CHR 0x22" "32 \<le> code c"
    using that lex_plain [of "[c]" acc rest] by (simp add: plain_byte_def)
  ultimately show ?thesis
    using esc by (simp only: quote_ascii_def split: if_splits) (simp add: not_less)
qed

lemma lex_quote_rune:
  assumes "rune_ok r"
  shows "lex (LStr acc) (quote_rune r @ rest) = lex (LStr (rev (quote_rune r) @ acc)) rest"
proof (cases r)
  case (Invalid c)
  then show ?thesis
    using lex_escape [of "''fffd''" acc "CHR ''u''" rest] by (simp add: plain_byte_def)
next
  case (Valid t)
  show ?thesis
  proof (cases "length t = 1")
    case True
    then show ?thesis
      using Valid lex_quote_ascii by simp
  next
    case False
    have "plain_byte c" if "c \<in> set t" for c
    proof -
      have "1 < utf8_len t"
        using assms False Valid by (cases t; cases "tl t") auto
      then have "128 \<le> code c"
        using utf8_len_high [of t c] assms Valid that by simp
      then show ?thesis
        by (auto simp: plain_byte_def)
    qed
    then have "list_all plain_byte t"
      by (simp add: list_all_iff)
    then show ?thesis
      using Valid False lex_plain [of t acc rest] lex_escape [of "''2028''" acc "CHR ''u''" rest]
        lex_escape [of "''2029''" acc "CHR ''u''" rest]
      by (simp add: plain_byte_def)
  qed
qed

lemma lex_quoted: "lex LStart (quoted s @ rest) = map_option ((#) (TStr (sanitize s))) (lex LStart rest)"
proof -
  have body: "list_all rune_ok rs \<Longrightarrow> lex (LStr acc) (concat (map quote_rune rs) @ rest') =
      lex (LStr (rev (concat (map quote_rune rs)) @ acc)) rest'" for rs acc rest'
    by (induction rs arbitrary: acc) (simp_all add: lex_quote_rune)
  have "lex (LStr []) (quote_body s @ CHR 0x22 # rest) = lex (LStr (rev (quote_body s))) (CHR 0x22 # rest)"
    using body [OF runes_ok] by (simp add: quote_body_def)
  then show ?thesis
    by (simp add: quoted_def lex_start_def json_space_def unquote_quote append_single)
qed

section \<open>The lexer on numbers and words\<close>

fun ends :: "string \<Rightarrow> bool" where
  "ends [] \<longleftrightarrow> True"
| "ends (c # cs) \<longleftrightarrow> c = CHR '','' \<or> c = CHR '']'' \<or> c = CHR ''}''"

lemma ends_start: "ends (c # cs) \<Longrightarrow> \<exists>t. lex_start c = Some ([t], LStart)"
  by (auto simp: lex_start_def json_space_def is_digit_def word_char_def punct_def)

lemma ends_not: "ends (c # cs) \<Longrightarrow> \<not> num_char c \<and> \<not> word_char c"
  by (auto simp: num_char_def is_digit_def word_char_def)

lemma lex_flush:
  assumes "ends rest" "lex_end m = Some [t]" "\<And>c. \<not> num_char c \<Longrightarrow> \<not> word_char c \<Longrightarrow> lex_step m c = flush_tok (Some t) c"
  shows "lex m rest = map_option ((#) t) (lex LStart rest)"
proof (cases rest)
  case (Cons c cs)
  then obtain u where "lex_start c = Some ([u], LStart)"
    using ends_start assms(1) by blast
  moreover have "lex_step m c = flush_tok (Some t) c"
    using assms(1,3) ends_not Cons by blast
  ultimately show ?thesis
    by (cases "lex LStart cs") (simp_all add: Cons flush_tok_def)
qed (use assms(2) in simp)

lemma drop_digits_chars: "list_all num_char (drop_digits s) \<Longrightarrow> list_all num_char s"
  by (induction s) (auto simp: drop_digits_def num_char_def split: if_splits)

lemma num_exp_chars: "num_exp s \<Longrightarrow> list_all num_char s"
  by (auto simp: num_exp_def num_char_def Let_def list_all_iff split: list.splits if_splits)

lemma num_frac_chars: "num_frac s \<Longrightarrow> list_all num_char s"
  using drop_digits_chars num_exp_chars
  by (force simp: num_frac_def num_char_def split: list.splits if_splits)

lemma num_int_chars: "num_int s \<Longrightarrow> list_all num_char s \<and> s \<noteq> [] \<and> is_digit (hd s)"
  using drop_digits_chars num_frac_chars
  by (auto simp: num_int_def num_char_def is_digit_def split: list.splits if_splits)

lemma valid_number_chars:
  assumes "valid_number s"
  obtains c cs where "s = c # cs" "is_digit c \<or> c = CHR ''-''" "list_all num_char cs"
proof -
  obtain c cs where s: "s = c # cs"
    using assms by (cases s) (simp_all add: valid_number_def)
  then show thesis
    using assms num_int_chars [of cs] num_int_chars [of s] that
    by (auto simp: valid_number_def split: if_splits)
qed

lemma lex_num_run: "list_all num_char t \<Longrightarrow> lex (LNum acc) (t @ rest) = lex (LNum (rev t @ acc)) rest"
  by (induction t arbitrary: acc) simp_all

lemma lex_number:
  assumes "valid_number t" "ends rest"
  shows "lex LStart (t @ rest) = map_option ((#) (TNum t)) (lex LStart rest)"
proof -
  obtain c cs where t: "t = c # cs" "is_digit c \<or> c = CHR ''-''" "list_all num_char cs"
    using assms(1) by (rule valid_number_chars)
  have "lex_start c = Some ([], LNum [c])"
    using t(2) by (auto simp: lex_start_def json_space_def is_digit_def)
  then have "lex LStart (t @ rest) = lex (LNum (rev t)) rest"
    using lex_num_run [OF t(3), of "[c]" rest] by (simp add: t(1))
  also have "\<dots> = map_option ((#) (TNum t)) (lex LStart rest)"
    using assms by (intro lex_flush) (simp_all add: number_tok_def)
  finally show ?thesis .
qed

lemma lex_word_run: "list_all word_char t \<Longrightarrow> lex (LWord acc) (t @ rest) = lex (LWord (rev t @ acc)) rest"
  by (induction t arbitrary: acc) simp_all

lemma word_char_start: "word_char c \<Longrightarrow> lex_start c = Some ([], LWord [c])"
  by (auto simp: lex_start_def json_space_def word_char_def is_digit_def)

lemma lex_word:
  assumes "word_tok w = Some t" "list_all word_char w" "ends rest"
  shows "lex LStart (w @ rest) = map_option ((#) t) (lex LStart rest)"
proof -
  obtain c cs where w: "w = c # cs"
    using assms(1) by (cases w) (simp_all add: word_tok_def)
  then have "lex LStart (w @ rest) = lex (LWord (rev w)) rest"
    using assms(2) lex_word_run [of cs "[c]" rest] by (simp add: word_char_start)
  also have "\<dots> = map_option ((#) t) (lex LStart rest)"
    using assms(1,3) by (intro lex_flush) simp_all
  finally show ?thesis .
qed

section \<open>Trees\<close>

fun clean :: "json \<Rightarrow> json" where
  "clean (JStr s) = JStr (sanitize s)"
| "clean (JArr vs) = JArr (map clean vs)"
| "clean (JObj ms) = JObj (map (\<lambda>(k, v). (sanitize k, clean v)) ms)"
| "clean v = v"

fun nums_ok :: "json \<Rightarrow> bool" where
  "nums_ok (JNum s) = valid_number s"
| "nums_ok (JArr vs) = list_all nums_ok vs"
| "nums_ok (JObj ms) = list_all (\<lambda>(k, v). nums_ok v) ms"
| "nums_ok v = True"

fun max_of :: "nat list \<Rightarrow> nat" where
  "max_of [] = 0"
| "max_of (n # ns) = max n (max_of ns)"

fun depth :: "json \<Rightarrow> nat" where
  "depth (JArr vs) = Suc (max_of (map depth vs))"
| "depth (JObj ms) = Suc (max_of (map (\<lambda>(k, v). depth v) ms))"
| "depth v = 0"

fun sep_toks :: "tok list list \<Rightarrow> tok list" where
  "sep_toks [] = []"
| "sep_toks [x] = x"
| "sep_toks (x # y # xs) = x @ TComma # sep_toks (y # xs)"

fun toks :: "json \<Rightarrow> tok list" where
  "toks JNull = [TNull]"
| "toks (JBool b) = [if b then TTrue else TFalse]"
| "toks (JNum s) = [TNum s]"
| "toks (JStr s) = [TStr s]"
| "toks (JArr vs) = TLBrack # sep_toks (map toks vs) @ [TRBrack]"
| "toks (JObj ms) = TLBrace # sep_toks (map (\<lambda>(k, v). TStr k # TColon # toks v) ms) @ [TRBrace]"

text \<open>The tokens read so far, in front of the rest.\<close>

definition pre :: "tok list \<Rightarrow> tok list option \<Rightarrow> tok list option" where
  "pre ts r = map_option ((@) ts) r"

lemma pre_simps [simp]:
  "pre [] r = r"
  "pre xs (pre ys r) = pre (xs @ ys) r"
  "pre xs (Some ys) = Some (xs @ ys)"
  by (simp_all add: pre_def map_option_twice)

lemma pre_one: "map_option ((#) t) r = pre [t] r"
  by (simp add: pre_def append_single)

lemmas lex_quoted_pre = lex_quoted [unfolded pre_one]
lemmas lex_number_pre = lex_number [unfolded pre_one]
lemmas lex_word_pre = lex_word [unfolded pre_one]

lemma lex_punct: "punct c = Some t \<Longrightarrow> lex LStart (c # rest) = pre [t] (lex LStart rest)"
  by (auto simp: lex_start_def json_space_def is_digit_def word_char_def punct_def pre_def split: if_splits)

lemmas lex_puncts =
  lex_punct [of "CHR '',''"] lex_punct [of "CHR '':''"] lex_punct [of "CHR ''[''"] lex_punct [of "CHR '']''"]
  lex_punct [of "CHR ''{''"] lex_punct [of "CHR ''}''"]

declare lex.simps(2) [simp del]

text \<open>One element after the other, each followed by a comma or by the closing bracket.\<close>

lemma lex_sep:
  assumes "\<And>x rest. x \<in> set xs \<Longrightarrow> ends rest \<Longrightarrow> lex LStart (f x @ rest) = pre (g x) (lex LStart rest)"
    and "ends rest"
  shows "lex LStart (sep_by (map f xs) @ rest) = pre (sep_toks (map g xs)) (lex LStart rest)"
  using assms(1)
proof (induction xs rule: induct_list012)
  case (2 x)
  then show ?case
    using assms(2) by simp
next
  case (3 x y xs)
  have "lex LStart (sep_by (map f (y # xs)) @ rest) = pre (sep_toks (map g (y # xs))) (lex LStart rest)"
    using 3 by simp
  moreover have "lex LStart (f x @ CHR '','' # sep_by (map f (y # xs)) @ rest) =
      pre (g x) (lex LStart (CHR '','' # sep_by (map f (y # xs)) @ rest))"
    using 3(3) by simp
  ultimately show ?case
    by (simp add: lex_puncts punct_def)
qed simp

lemma lex_text:
  assumes "nums_ok v" "ends rest"
  shows "lex LStart (json_text v @ rest) = pre (toks (clean v)) (lex LStart rest)"
  using assms
proof (induction v arbitrary: rest)
  case JNull
  then show ?case
    using lex_word_pre [of "''null''" TNull rest] by (simp add: word_tok_def word_char_def)
next
  case (JBool b)
  then show ?case
    using lex_word_pre [of "''true''" TTrue rest] lex_word_pre [of "''false''" TFalse rest]
    by (simp add: word_tok_def word_char_def)
next
  case (JNum s)
  then show ?case
    by (simp add: lex_number_pre)
next
  case (JStr s)
  then show ?case
    by (simp add: lex_quoted_pre)
next
  case (JArr vs)
  have "lex LStart (sep_by (map json_text vs) @ CHR '']'' # rest) =
      pre (sep_toks (map (\<lambda>v. toks (clean v)) vs)) (lex LStart (CHR '']'' # rest))"
    using JArr by (intro lex_sep) (auto simp: list_all_iff)
  then show ?case
    by (simp add: lex_puncts punct_def comp_def)
next
  case (JObj ms)
  let ?f = "\<lambda>(k, v). quoted k @ CHR '':'' # json_text v"
  have "lex LStart (sep_by (map ?f ms) @ CHR ''}'' # rest) =
      pre (sep_toks (map (\<lambda>(k, v). TStr (sanitize k) # TColon # toks (clean v)) ms))
        (lex LStart (CHR ''}'' # rest))"
  proof (rule lex_sep)
    fix x rest
    assume mem: "x \<in> set ms" "ends rest"
    obtain k v where x: "x = (k, v)"
      by (cases x)
    have "lex LStart (json_text v @ rest) = pre (toks (clean v)) (lex LStart rest)"
      using JObj.IH [of x v rest] JObj.prems(1) mem by (auto simp: x list_all_iff)
    then show "lex LStart (?f x @ rest) =
        pre ((\<lambda>(k, v). TStr (sanitize k) # TColon # toks (clean v)) x) (lex LStart rest)"
      by (simp add: x lex_quoted_pre lex_puncts punct_def)
  qed simp
  moreover have "map (\<lambda>(k, v). TStr k # TColon # toks v) (map (\<lambda>(k, v). (sanitize k, clean v)) ms) =
      map (\<lambda>(k, v). TStr (sanitize k) # TColon # toks (clean v)) ms"
    by auto
  ultimately show ?case
    by (simp add: lex_puncts punct_def del: map_map)
qed

section \<open>The parser on the tokens of a tree\<close>

lemma feed_all_append: "feed_all c (ts @ us) = Option.bind (feed_all c ts) (\<lambda>c'. feed_all c' us)"
  by (induction ts arbitrary: c) (auto split: option.split)

lemma toks_first: "\<exists>t ts. toks v = t # ts \<and> t \<noteq> TRBrack \<and> t \<noteq> TRBrace"
  by (cases v) auto

lemma depth_member: "x \<in> set xs \<Longrightarrow> x \<le> max_of xs"
  by (induction xs) auto

lemma feed_elems:
  assumes "\<And>v st ts. v \<in> set vs \<Longrightarrow> length st + depth v \<le> maxNestingDepth \<Longrightarrow>
      feed_all (st, XValue) (toks v) = deliver_value v st"
    and "Suc (length st) + max_of (map depth vs) \<le> maxNestingDepth" "vs \<noteq> []"
  shows "feed_all (FArr acc # st, XValue) (sep_toks (map toks vs)) = Some (FArr (rev vs @ acc) # st, XComma)"
  using assms
proof (induction vs arbitrary: acc rule: induct_list012)
  case (2 v)
  then show ?case
    by simp
next
  case (3 v w vs)
  have "feed_all (FArr acc # st, XValue) (toks v) = Some (FArr (v # acc) # st, XComma)"
    using 3 by simp
  then show ?case
    using 3(2) [of "v # acc"] 3(3,4) by (simp add: feed_all_append)
qed simp

lemma feed_members:
  assumes "\<And>k v st ts. (k, v) \<in> set ms \<Longrightarrow> length st + depth v \<le> maxNestingDepth \<Longrightarrow>
      feed_all (st, XValue) (toks v) = deliver_value v st"
    and "Suc (length st) + max_of (map (\<lambda>(k, v). depth v) ms) \<le> maxNestingDepth" "ms \<noteq> []"
  shows "feed_all (FObj acc # st, XKey) (sep_toks (map (\<lambda>(k, v). TStr k # TColon # toks v) ms)) =
    Some (FObj (rev ms @ acc) # st, XComma)"
  using assms
proof (induction ms arbitrary: acc rule: induct_list012)
  case (2 m)
  then show ?case
    by (cases m) simp
next
  case (3 m n ms)
  obtain k v where m: "m = (k, v)"
    by (cases m)
  have "feed_all (FObj acc # st, XKey) (TStr k # TColon # toks v) = Some (FObj ((k, v) # acc) # st, XComma)"
    using 3(3) [of k v "FKey k acc # st"] 3(4) by (simp add: m)
  moreover have "feed_all (FObj ((k, v) # acc) # st, XKey)
      (sep_toks (map (\<lambda>(k, v). TStr k # TColon # toks v) (n # ms))) = Some (FObj (rev (n # ms) @ (k, v) # acc) # st, XComma)"
    by (rule 3(2)) (use 3(3,4) in \<open>auto simp: m\<close>)
  ultimately show ?case
    by (simp add: m feed_all_append)
qed simp

lemma feed_first:
  assumes "ts \<noteq> []" "hd ts \<noteq> TRBrack"
  shows "feed_all (st, XValueOrEnd) ts = feed_all (st, XValue) ts"
  using assms by (cases ts) simp_all

lemma feed_first_key:
  assumes "ts \<noteq> []" "hd ts \<noteq> TRBrace"
  shows "feed_all (st, XKeyOrEnd) ts = feed_all (st, XKey) ts"
  using assms by (cases ts) simp_all

lemma feed_toks:
  assumes "length st + depth v \<le> maxNestingDepth"
  shows "feed_all (st, XValue) (toks v) = deliver_value v st"
  using assms
proof (induction v arbitrary: st)
  case (JArr vs)
  show ?case
  proof (cases vs)
    case Nil
    then show ?thesis
      using JArr.prems by (simp add: push_frame_def split: option.split)
  next
    case (Cons w ws)
    obtain t ts where first: "sep_toks (map toks vs) = t # ts" "t \<noteq> TRBrack"
      using toks_first [of w] by (cases ws) (auto simp: Cons)
    have "feed_all (FArr [] # st, XValue) (sep_toks (map toks vs)) = Some (FArr (rev vs) # st, XComma)"
      using feed_elems [of vs st "[]"] JArr by (simp add: Cons)
    moreover have "feed_all (FArr [] # st, XValueOrEnd) (sep_toks (map toks vs)) =
        feed_all (FArr [] # st, XValue) (sep_toks (map toks vs))"
      using first by (intro feed_first) simp_all
    ultimately show ?thesis
      using JArr.prems by (simp add: push_frame_def feed_all_append split: option.split)
  qed
next
  case (JObj ms)
  let ?g = "\<lambda>(k, v). TStr k # TColon # toks v"
  show ?case
  proof (cases ms)
    case Nil
    then show ?thesis
      using JObj.prems by (simp add: push_frame_def split: option.split)
  next
    case (Cons w ws)
    obtain t ts where first: "sep_toks (map ?g ms) = t # ts" "t \<noteq> TRBrace"
      by (cases w; cases ws) (simp_all add: Cons)
    have "feed_all (FObj [] # st, XKey) (sep_toks (map ?g ms)) = Some (FObj (rev ms) # st, XComma)"
      using feed_members [of ms st "[]"] JObj by (fastforce simp: Cons)
    moreover have "feed_all (FObj [] # st, XKeyOrEnd) (sep_toks (map ?g ms)) =
        feed_all (FObj [] # st, XKey) (sep_toks (map ?g ms))"
      using first by (intro feed_first_key) simp_all
    ultimately show ?thesis
      using JObj.prems by (simp add: push_frame_def feed_all_append split: option.split)
  qed
qed (auto split: option.split)

lemma depth_clean [simp]: "depth (clean v) = depth v"
proof (induction v)
  case (JObj ms)
  then have "map (\<lambda>(k, v). depth v) (map (\<lambda>(k, v). (sanitize k, clean v)) ms) = map (\<lambda>(k, v). depth v) ms"
    by (auto)
  then show ?case
    by (simp only: clean.simps depth.simps)
qed (auto cong: map_cong simp: comp_def)

lemma parse_text:
  assumes "nums_ok v" "depth v \<le> maxNestingDepth"
  shows "json_parse (json_text v) = Some (clean v)"
  using lex_text [OF assms(1), of "[]"] feed_toks [of "[]" "clean v"] assms(2) by (simp add: json_parse_def)

end
