(* ===== verification/Go_Json_Value.thy ===== *)
theory Go_Json_Value
  imports Go_Value Go_Float Go_Base64 Go_Json_Roundtrip
begin

text \<open>
  \<open>json.Marshal\<close> of a dynamic value and \<open>json.Unmarshal\<close> into one, into a \<open>map[string]any\<close>, and into the
  fields of a struct: as trees, on top of \<open>json_text\<close> and \<open>json_parse\<close>. \<open>None\<close> is the error the package
  returns (an unsupported value, a number out of range, a value of the wrong type).
\<close>

section \<open>Writing a value\<close>

fun all_some :: "'a option list \<Rightarrow> 'a list option" where
  "all_some [] = Some []"
| "all_some (None # xs) = None"
| "all_some (Some x # xs) = map_option ((#) x) (all_some xs)"

lemma all_some_iff: "all_some rs = Some xs \<longleftrightarrow> rs = map Some xs"
  by (induction rs arbitrary: xs rule: all_some.induct) auto

lemma all_some_map: "all_some (map f xs) = Some ys \<longleftrightarrow> map f xs = map Some ys"
  by (rule all_some_iff)

fun to_json :: "goval \<Rightarrow> json option" where
  "to_json GNil = Some JNull"
| "to_json (GBool b) = Some (JBool b)"
| "to_json (GInt i) = Some (JNum (itoa i))"
| "to_json (GFloat w) = map_option JNum (format_float w)"
| "to_json (GStr s) = Some (JStr s)"
| "to_json (GBytes b) = Some (case b of None \<Rightarrow> JNull | Some bs \<Rightarrow> JStr (b64_encode bs))"
| "to_json (GSlice vs) = map_option JArr (all_some (map to_json vs))"
| "to_json (GMap m) = map_option JObj (all_some (map (\<lambda>(k, v). map_option (Pair k) (to_json v)) m))"
| "to_json (GOther t) = t"

text \<open>A variable of type \<open>map[string]any\<close>: the nil map is written as null, the others with sorted keys (the order of
  a \<open>gomap\<close>).\<close>

definition dict_json :: "gdict \<Rightarrow> json option" where
  "dict_json d = (case d of None \<Rightarrow> Some JNull | Some m \<Rightarrow> to_json (GMap m))"

section \<open>Reading a value\<close>

fun of_json :: "json \<Rightarrow> goval option" where
  "of_json JNull = Some GNil"
| "of_json (JBool b) = Some (GBool b)"
| "of_json (JNum s) = map_option GFloat (parse_float s)"
| "of_json (JStr s) = Some (GStr s)"
| "of_json (JArr vs) = map_option GSlice (all_some (map of_json vs))"
| "of_json (JObj ms) =
     map_option (\<lambda>kvs. GMap (mput_all kvs []))
       (all_some (map (\<lambda>(k, v). map_option (Pair k) (of_json v)) ms))"

text \<open>Into a map variable: null makes it nil, an object is added to the map it holds.\<close>

fun into_dict :: "gdict \<Rightarrow> json \<Rightarrow> gdict option" where
  "into_dict d JNull = Some None"
| "into_dict d (JObj ms) =
     map_option (\<lambda>kvs. Some (mput_all kvs (case d of None \<Rightarrow> [] | Some m \<Rightarrow> m)))
       (all_some (map (\<lambda>(k, v). map_option (Pair k) (of_json v)) ms))"
| "into_dict d _ = None"

text \<open>Into a string and into an \<open>int64\<close>; null leaves the variable as it is.\<close>

fun into_string :: "string \<Rightarrow> json \<Rightarrow> string option" where
  "into_string s JNull = Some s"
| "into_string s (JStr t) = Some t"
| "into_string s _ = None"

text \<open>\<open>ParseInt\<close> on a number literal: digits with an optional minus sign, within the 64 bits.\<close>

definition int_literal :: "string \<Rightarrow> int option" where
  "int_literal s =
     (case sign_split s of (neg, ds) \<Rightarrow>
        if ds \<noteq> [] \<and> list_all is_digit ds then
          (let i = (if neg then - int (nat_of_dec ds) else int (nat_of_dec ds))
           in if - (2 ^ 63) \<le> i \<and> i < 2 ^ 63 then Some i else None)
        else None)"

fun into_int64 :: "int64 \<Rightarrow> json \<Rightarrow> int64 option" where
  "into_int64 i JNull = Some i"
| "into_int64 i (JNum s) = map_option word_of_int (int_literal s)"
| "into_int64 i _ = None"

text \<open>Struct fields are matched by name without regard to case. \<open>fold_key\<close> is \<open>foldName\<close> as far as it can meet a
  name of ASCII letters: the long s and the Kelvin sign fold to letters.\<close>

definition upper :: "char \<Rightarrow> char" where
  "upper c = (if 97 \<le> code c \<and> code c \<le> 122 then char_of (code c - 32) else c)"

fun fold_key :: "string \<Rightarrow> string" where
  "fold_key [] = []"
| "fold_key (c # cs) =
     (if code c = 0xC5 \<and> cs \<noteq> [] \<and> code (hd cs) = 0xBF then CHR ''S'' # fold_key (drop 1 cs)
      else if code c = 0xE2 \<and> 2 \<le> length cs \<and> code (cs ! 0) = 0x84 \<and> code (cs ! 1) = 0xAA
      then CHR ''K'' # fold_key (drop 2 cs)
      else upper c # fold_key cs)"

definition names :: "string \<Rightarrow> string \<Rightarrow> bool" where
  "names field key \<longleftrightarrow> fold_key key = fold_key field"

text \<open>Into a struct: member by member, each into the field it names, if any; null changes nothing.\<close>

fun into_members :: "('s \<Rightarrow> string \<Rightarrow> json \<Rightarrow> 's option) \<Rightarrow> 's \<Rightarrow> (string \<times> json) list \<Rightarrow> 's option" where
  "into_members f s [] = Some s"
| "into_members f s ((k, v) # ms) = Option.bind (f s k v) (\<lambda>s'. into_members f s' ms)"

fun into_struct :: "('s \<Rightarrow> string \<Rightarrow> json \<Rightarrow> 's option) \<Rightarrow> 's \<Rightarrow> json \<Rightarrow> 's option" where
  "into_struct f s JNull = Some s"
| "into_struct f s (JObj ms) = into_members f s ms"
| "into_struct f s _ = None"

section \<open>Marshal and Unmarshal on bytes\<close>

definition unmarshal :: "(json \<Rightarrow> 'a option) \<Rightarrow> bytes \<Rightarrow> 'a option" where
  "unmarshal dec bs = Option.bind (json_parse (string_of bs)) dec"

definition marshal :: "json option \<Rightarrow> bytes option" where
  "marshal j = map_option (\<lambda>v. bytes_of (json_text v)) j"

lemma unmarshal_marshal:
  assumes "j = Some v" "nums_ok v" "depth v \<le> maxNestingDepth"
  shows "\<exists>bs. marshal j = Some bs \<and> unmarshal dec bs = dec (clean v)"
  using assms parse_text by (simp add: marshal_def unmarshal_def)

section \<open>Numbers that are written are valid\<close>

lemma dec_of_nat_0: "dec_of_nat 0 = ''0''"
  by code_simp

lemma dec_of_nat_first: "dec_of_nat n = ''0'' \<or> (\<exists>c cs. dec_of_nat n = c # cs \<and> c \<noteq> CHR ''0'' \<and> is_digit c \<and> list_all is_digit cs)"
proof (induction n rule: dec_of_nat.induct)
  case (1 n)
  show ?case
  proof (cases "n < 10")
    case True
    have "digit_char n \<noteq> CHR ''0''" if "n \<noteq> 0"
      using of_char_digit_char [OF True] that by auto
    then show ?thesis
      using True dec_of_nat_digits [of n] by (cases "n = 0") (auto simp: dec_of_nat.simps [of n] dec_of_nat.simps [of 0] digit_char_def)
  next
    case False
    then have "dec_of_nat n = dec_of_nat (n div 10) @ [digit_char (n mod 10)]"
      by (simp add: dec_of_nat.simps [of n])
    moreover have "dec_of_nat (n div 10) \<noteq> ''0''"
      using False dec_of_nat_inject [of "n div 10" 0] by (simp add: dec_of_nat_0)
    ultimately show ?thesis
      using 1 False dec_of_nat_digits [of n] by auto
  qed
qed

lemma valid_dec: "num_int (dec_of_nat n)"
proof -
  consider "dec_of_nat n = ''0''" | c cs where "dec_of_nat n = c # cs" "c \<noteq> CHR ''0''" "is_digit c" "list_all is_digit cs"
    using dec_of_nat_first by blast
  then show ?thesis
  proof cases
    case 2
    then have "drop_digits cs = []"
      by (simp add: drop_digits_def list_all_iff)
    then show ?thesis
      using 2 by (simp add: num_int_def num_frac_def)
  qed (simp add: num_int_def num_frac_def)
qed

lemma valid_itoa [simp]: "valid_number (itoa i)"
proof -
  have "valid_number (dec_of_nat n)" for n
    using valid_dec [of n] num_int_chars [of "dec_of_nat n"] digit_not_sign
    by (cases "dec_of_nat n") (auto simp: valid_number_def)
  then show ?thesis
    by (simp add: itoa_def valid_number_def valid_dec)
qed

lemma int_literal_itoa: "- (2 ^ 63) \<le> i \<Longrightarrow> i < 2 ^ 63 \<Longrightarrow> int_literal (itoa i) = Some i"
  using dec_of_nat_digits [of "nat i"] dec_of_nat_digits [of "nat (- i)"]
  by (auto simp: int_literal_def itoa_def Let_def)

end
