(* ===== verification/Note_Wire.thy ===== *)
theory Note_Wire
  imports Note Go_Json_Value
begin

text \<open>
  The framing of notes, \<open>internal/note/wire.go\<close>, and their JSON form, the struct tags of
  \<open>internal/note/note.go\<close>. A stream is the list of the bytes it still holds; the writer's stream takes
  every byte it is given, and the end of the reader's list is the end of the stream.
\<close>

section \<open>Notes as JSON (the struct tags of note.go)\<close>

definition str_opt :: "string \<Rightarrow> string \<Rightarrow> (string \<times> json) list" where
  "str_opt name s = (if s = [] then [] else [(name, JStr s)])"

definition dict_opt :: "string \<Rightarrow> gdict \<Rightarrow> (string \<times> json) list option" where
  "dict_opt name d = (case d of None \<Rightarrow> Some [] | Some [] \<Rightarrow> Some []
     | Some m \<Rightarrow> map_option (\<lambda>j. [(name, j)]) (dict_json d))"

definition int64_json :: "int64 \<Rightarrow> json" where
  "int64_json i = JNum (itoa (sint i))"

definition identity_json :: "identity \<Rightarrow> json" where
  "identity_json n = JObj ([(''agent'', JStr (id_agent n)), (''key'', JStr (id_key n))] @ str_opt ''universe'' (id_universe n))"

definition meta_json :: "meta \<Rightarrow> json option" where
  "meta_json m = map_option (\<lambda>hs. JObj (str_opt ''message_id'' (meta_message_id m) @ hs)) (dict_opt ''headers'' (meta_headers m))"

definition init_json :: "init_note \<Rightarrow> json option" where
  "init_json n = map_option (\<lambda>cs. JObj ([(''type'', JStr TypeInit), (''protocol'', JNum (itoa (in_protocol n))),
       (''identity'', identity_json (in_identity n))] @ cs @
       (if in_inputs n = [] then [] else [(''inputs'', JArr (map JStr (in_inputs n)))])))
     (dict_opt ''config'' (in_config n))"

definition deliver_json :: "deliver_note \<Rightarrow> json option" where
  "deliver_json n = Option.bind (dict_json (dn_data n)) (\<lambda>d. map_option (\<lambda>m.
     JObj [(''type'', JStr TypeDeliver), (''id'', int64_json (dn_id n)), (''selector'', JStr (dn_selector n)),
       (''data'', d), (''meta'', m)]) (meta_json (dn_meta n)))"

definition emit_ack_json :: "emit_ack_note \<Rightarrow> json option" where
  "emit_ack_json n = Some (JObj ([(''type'', JStr TypeEmitAck), (''id'', int64_json (ea_id n)),
     (''status'', JStr (ea_status n))] @ str_opt ''error'' (ea_error n)))"

definition shutdown_json :: "shutdown_note \<Rightarrow> json option" where
  "shutdown_json n = Some (JObj ((''type'', JStr TypeShutdown) #
     (if sh_deadline_ms n = 0 then [] else [(''deadline_ms'', int64_json (sh_deadline_ms n))])))"

definition emit_json :: "emit_note \<Rightarrow> json option" where
  "emit_json n = map_option (\<lambda>d. JObj ([(''type'', JStr TypeEmit), (''id'', int64_json (em_id n))] @
     (if em_deliver n = 0 then [] else [(''deliver'', int64_json (em_deliver n))]) @
     [(''selector'', JStr (em_selector n)), (''data'', d)])) (dict_json (em_data n))"

definition done_json :: "done_note \<Rightarrow> json option" where
  "done_json n = Some (JObj ([(''type'', JStr TypeDone), (''id'', int64_json (do_id n)),
     (''status'', JStr (do_status n))] @ str_opt ''error'' (do_error n)))"

definition pickup_json :: "pickup_note \<Rightarrow> json option" where
  "pickup_json n = Some (JObj [(''type'', JStr TypePickup), (''id'', int64_json (pk_id n))])"

text \<open>The fields a JSON member sets.\<close>

definition peek_field :: "string \<Rightarrow> string \<Rightarrow> json \<Rightarrow> string option" where
  "peek_field t k v = (if names ''type'' k then into_string t v else Some t)"

definition emit_field :: "emit_note \<Rightarrow> string \<Rightarrow> json \<Rightarrow> emit_note option" where
  "emit_field e k v =
     (if names ''type'' k then map_option (\<lambda>_. e) (into_string [] v)
      else if names ''id'' k then map_option (\<lambda>i. e\<lparr>em_id := i\<rparr>) (into_int64 (em_id e) v)
      else if names ''deliver'' k then map_option (\<lambda>i. e\<lparr>em_deliver := i\<rparr>) (into_int64 (em_deliver e) v)
      else if names ''selector'' k then map_option (\<lambda>s. e\<lparr>em_selector := s\<rparr>) (into_string (em_selector e) v)
      else if names ''data'' k then map_option (\<lambda>d. e\<lparr>em_data := d\<rparr>) (into_dict (em_data e) v)
      else Some e)"

definition done_field :: "done_note \<Rightarrow> string \<Rightarrow> json \<Rightarrow> done_note option" where
  "done_field d k v =
     (if names ''type'' k then map_option (\<lambda>_. d) (into_string [] v)
      else if names ''id'' k then map_option (\<lambda>i. d\<lparr>do_id := i\<rparr>) (into_int64 (do_id d) v)
      else if names ''status'' k then map_option (\<lambda>s. d\<lparr>do_status := s\<rparr>) (into_string (do_status d) v)
      else if names ''error'' k then map_option (\<lambda>s. d\<lparr>do_error := s\<rparr>) (into_string (do_error d) v)
      else Some d)"

definition pickup_field :: "pickup_note \<Rightarrow> string \<Rightarrow> json \<Rightarrow> pickup_note option" where
  "pickup_field p k v =
     (if names ''type'' k then map_option (\<lambda>_. p) (into_string [] v)
      else if names ''id'' k then map_option (\<lambda>i. p\<lparr>pk_id := i\<rparr>) (into_int64 (pk_id p) v)
      else Some p)"

definition zero_emit :: emit_note where
  "zero_emit = \<lparr>em_id = 0, em_deliver = 0, em_selector = [], em_data = None\<rparr>"

definition zero_done :: done_note where
  "zero_done = \<lparr>do_id = 0, do_status = [], do_error = []\<rparr>"

definition zero_pickup :: pickup_note where
  "zero_pickup = \<lparr>pk_id = 0\<rparr>"

section \<open>Frames\<close>

definition MaxFrameSize :: nat where
  "MaxFrameSize = 64 * 2 ^ 20"

datatype frame_error = MarshalError | EndOfStream | UnexpectedEnd | FrameTooLarge

text \<open>\<open>binary.BigEndian\<close>.\<close>

definition put_uint32 :: "uint32 \<Rightarrow> bytes" where
  "put_uint32 n = [word_of_nat (unat n div 256 ^ 3), word_of_nat (unat n div 256 ^ 2),
     word_of_nat (unat n div 256), word_of_nat (unat n)]"

definition uint32_of :: "bytes \<Rightarrow> uint32" where
  "uint32_of bs = word_of_nat (foldl (\<lambda>n b. 256 * n + unat b) 0 bs)"

definition WriteFrame :: "json option \<Rightarrow> frame_error + bytes" where
  "WriteFrame v =
     (case marshal v of
        None \<Rightarrow> Inl MarshalError
      | Some body \<Rightarrow>
          if MaxFrameSize < length body then Inl FrameTooLarge
          else Inr (put_uint32 (word_of_nat (length body)) @ body))"

text \<open>\<open>io.ReadFull\<close> of \<open>n\<close> bytes: the end of the stream before the first of them is \<open>io.EOF\<close>, after it
  \<open>io.ErrUnexpectedEOF\<close>; reading no bytes always succeeds.\<close>

definition read_full :: "nat \<Rightarrow> bytes \<Rightarrow> frame_error + bytes \<times> bytes" where
  "read_full n bs =
     (if n \<le> length bs then Inr (take n bs, drop n bs)
      else if bs = [] then Inl EndOfStream else Inl UnexpectedEnd)"

text \<open>\<open>ReadFrame\<close> with what it does before it returns: the buffers it makes for a body and the reads it asks the
  stream for, in order.\<close>

datatype frame_act = ReadFull nat | MakeBody nat

definition read_frame :: "bytes \<Rightarrow> frame_act list \<times> (frame_error + bytes \<times> bytes)" where
  "read_frame bs =
     (case read_full 4 bs of
        Inl err \<Rightarrow> ([ReadFull 4], Inl err)
      | Inr (hdr, rest) \<Rightarrow>
          (let n = unat (uint32_of hdr)
           in if MaxFrameSize < n then ([ReadFull 4], Inl FrameTooLarge)
              else ([ReadFull 4, MakeBody n, ReadFull n], read_full n rest)))"

definition ReadFrame :: "bytes \<Rightarrow> frame_error + bytes \<times> bytes" where
  "ReadFrame bs = snd (read_frame bs)"

lemma ReadFrame_eq:
  "ReadFrame bs = bindE (read_full 4 bs) (\<lambda>(hdr, rest).
     let n = unat (uint32_of hdr) in if MaxFrameSize < n then Inl FrameTooLarge else read_full n rest)"
  by (simp add: ReadFrame_def read_frame_def bindE_def Let_def split: sum.split)

section \<open>The writer and the reader\<close>

definition write_init :: "init_note \<Rightarrow> frame_error + bytes" where
  "write_init n = WriteFrame (init_json n)"

definition write_deliver :: "deliver_note \<Rightarrow> frame_error + bytes" where
  "write_deliver n = WriteFrame (deliver_json n)"

definition write_emit_ack :: "emit_ack_note \<Rightarrow> frame_error + bytes" where
  "write_emit_ack n = WriteFrame (emit_ack_json n)"

definition write_shutdown :: "shutdown_note \<Rightarrow> frame_error + bytes" where
  "write_shutdown n = WriteFrame (shutdown_json n)"

datatype read_error =
    FrameError frame_error
  | BadType
  | BadEmit
  | BadDone
  | BadPickup
  | UnexpectedType string

definition note_of_body :: "bytes \<Rightarrow> read_error + handler_note" where
  "note_of_body body =
     bindE (ofOption BadType (unmarshal (into_struct peek_field []) body)) (\<lambda>t.
       if t = TypeEmit then bindE (ofOption BadEmit (unmarshal (into_struct emit_field zero_emit) body)) (\<lambda>e. Inr (HEmit e))
       else if t = TypeDone then bindE (ofOption BadDone (unmarshal (into_struct done_field zero_done) body)) (\<lambda>d. Inr (HDone d))
       else if t = TypePickup then bindE (ofOption BadPickup (unmarshal (into_struct pickup_field zero_pickup) body)) (\<lambda>p. Inr (HPickup p))
       else Inl (UnexpectedType t))"

definition Read :: "bytes \<Rightarrow> read_error + handler_note \<times> bytes" where
  "Read bs =
     bindE (mapE FrameError (ReadFrame bs)) (\<lambda>(body, rest).
       bindE (note_of_body body) (\<lambda>n. Inr (n, rest)))"

end
