(* ===== verification/Note_Wire_Properties.thy ===== *)
theory Note_Wire_Properties
  imports Note_Wire
begin

text \<open>
  What the framing and the note reader promise (\<open>internal/note/wire.go\<close>): the round trip of single frames
  and of whole streams, what a truncated stream reads as, and the round trip of the handler notes.
\<close>

section \<open>The length prefix\<close>

lemma length_put_uint32 [simp]: "length (put_uint32 n) = 4"
  by (simp add: put_uint32_def)

lemma base256:
  fixes n :: nat
  assumes "n < 2 ^ 32"
  shows "256 * (256 * (256 * (n div 256 ^ 3 mod 256) + n div 256 ^ 2 mod 256) + n div 256 mod 256) + n mod 256 = n"
proof -
  have "n div 256 ^ 3 mod 256 = n div 256 ^ 3"
    using assms by (simp add: div_less_iff_less_mult)
  moreover have "256 * (n div 256 ^ 3) + n div 256 ^ 2 mod 256 = n div 256 ^ 2"
    using mult_div_mod_eq [of 256 "n div 256 ^ 2"] by (simp add: div_mult2_eq [symmetric])
  moreover have "256 * (n div 256 ^ 2) + n div 256 mod 256 = n div 256"
    using mult_div_mod_eq [of 256 "n div 256"] by (simp add: div_mult2_eq [symmetric])
  ultimately show ?thesis
    by simp
qed

lemma uint32_put [simp]: "uint32_of (put_uint32 n) = n"
proof -
  have n: "unat n < 2 ^ 32"
    by (rule order_less_le_trans [OF unsigned_less]) simp
  have byte: "unat (word_of_nat k :: byte) = k mod 256" for k
    by (simp add: unsigned_of_nat take_bit_eq_mod)
  have "foldl (\<lambda>n b. 256 * n + unat b) 0 (put_uint32 n) = unat n"
    using base256 [OF n] by (simp only: put_uint32_def foldl.simps byte mult_0_right add_0)
  then show ?thesis
    by (simp add: uint32_of_def)
qed

lemma unat_length: "n \<le> MaxFrameSize \<Longrightarrow> unat (word_of_nat n :: uint32) = n"
  by (simp add: MaxFrameSize_def unsigned_of_nat take_bit_eq_mod)

section \<open>One frame\<close>

definition frame_of :: "bytes \<Rightarrow> bytes" where
  "frame_of body = put_uint32 (word_of_nat (length body)) @ body"

lemma WriteFrame_iff: "WriteFrame v = Inr f \<longleftrightarrow>
    (\<exists>body. marshal v = Some body \<and> length body \<le> MaxFrameSize \<and> f = frame_of body)"
  by (auto simp: WriteFrame_def frame_of_def split: option.split)

lemma ReadFrame_frame: "length body \<le> MaxFrameSize \<Longrightarrow> ReadFrame (frame_of body @ rest) = Inr (body, rest)"
  by (simp add: ReadFrame_eq frame_of_def read_full_def unat_length Let_def)

lemma read_full_Inr: "read_full n bs = Inr (x, rest) \<longleftrightarrow> length x = n \<and> bs = x @ rest"
  by (auto simp: read_full_def)

section \<open>Streams of frames\<close>

text \<open>A prefix code: what was put is got back whatever follows it, and an empty stream is recognised.\<close>

locale prefix_code =
  fixes put :: "'b \<Rightarrow> bytes"
    and get :: "bytes \<Rightarrow> 'e + 'b \<times> bytes"
    and ok :: "'b \<Rightarrow> bool"
    and eof :: 'e
  assumes get_put: "ok b \<Longrightarrow> get (put b @ rest) = Inr (b, rest)"
    and get_empty: "get [] = Inl eof"
begin

text \<open>At most \<open>n\<close> reads, up to the first error.\<close>

fun gets :: "nat \<Rightarrow> bytes \<Rightarrow> 'b list \<times> 'e option" where
  "gets 0 bs = ([], None)"
| "gets (Suc n) bs =
     (case get bs of
        Inl e \<Rightarrow> ([], Some e)
      | Inr (b, rest) \<Rightarrow> (case gets n rest of (xs, e) \<Rightarrow> (b # xs, e)))"

lemma gets_puts:
  assumes "list_all ok xs" "length xs < n"
  shows "gets n (concat (map put xs)) = (xs, Some eof)"
  using assms
proof (induction xs arbitrary: n)
  case Nil
  then show ?case
    by (cases n) (simp_all add: get_empty)
next
  case (Cons x xs)
  then show ?case
    by (cases n) (simp_all add: get_put)
qed

lemma put_inject:
  assumes "ok a" "ok b" "put a @ r = put b @ s"
  shows "a = b \<and> r = s"
proof -
  have "get (put a @ r) = Inr (a, r)"
    by (rule get_put [OF assms(1)])
  moreover have "get (put a @ r) = Inr (b, s)"
    unfolding assms(3) by (rule get_put [OF assms(2)])
  ultimately show ?thesis
    by simp
qed

lemma puts_inject:
  assumes "list_all ok xs" "list_all ok ys" "concat (map put xs) = concat (map put ys)"
  shows "xs = ys"
proof -
  define n where "n = Suc (length xs + length ys)"
  have "(xs, Some eof) = gets n (concat (map put xs))"
    by (rule gets_puts [OF assms(1), symmetric]) (simp add: n_def)
  also have "\<dots> = gets n (concat (map put ys))"
    by (simp only: assms(3))
  also have "\<dots> = (ys, Some eof)"
    by (rule gets_puts [OF assms(2)]) (simp add: n_def)
  finally show ?thesis
    by simp
qed

end

interpretation fr: prefix_code frame_of ReadFrame "\<lambda>body. length body \<le> MaxFrameSize" EndOfStream
proof
  show "ReadFrame (frame_of body @ rest) = Inr (body, rest)" if "length body \<le> MaxFrameSize" for body rest
    using that by (rule ReadFrame_frame)
  show "ReadFrame [] = Inl EndOfStream"
    by (simp add: ReadFrame_eq read_full_def)
qed

section \<open>Properties of the framing\<close>

text \<open>Reading frames up to the first error, at most \<open>n\<close> of them.\<close>

fun read_frames :: "nat \<Rightarrow> bytes \<Rightarrow> bytes list \<times> frame_error option" where
  "read_frames 0 bs = ([], None)"
| "read_frames (Suc n) bs =
     (case ReadFrame bs of
        Inl e \<Rightarrow> ([], Some e)
      | Inr (b, rest) \<Rightarrow> (case read_frames n rest of (xs, e) \<Rightarrow> (b # xs, e)))"

lemma read_frames_gets: "read_frames n bs = fr.gets n bs"
  by (induction n arbitrary: bs) (simp_all cong: sum.case_cong prod.case_cong)

lemma written_bodies:
  assumes "map WriteFrame vs = map Inr fs"
  obtains bodies where "map marshal vs = map Some bodies" "fs = map frame_of bodies"
    "list_all (\<lambda>b. length b \<le> MaxFrameSize) bodies"
proof -
  have "\<exists>bodies. map marshal vs = map Some bodies \<and> fs = map frame_of bodies \<and>
      list_all (\<lambda>b. length b \<le> MaxFrameSize) bodies"
    using assms
  proof (induction vs arbitrary: fs)
    case (Cons v vs)
    then obtain f gs where fs: "fs = f # gs" "WriteFrame v = Inr f" "map WriteFrame vs = map Inr gs"
      by auto
    obtain bodies where "map marshal vs = map Some bodies" "gs = map frame_of bodies"
        "list_all (\<lambda>b. length b \<le> MaxFrameSize) bodies"
      using Cons.IH [OF fs(3)] by blast
    moreover obtain b where "marshal v = Some b" "length b \<le> MaxFrameSize" "f = frame_of b"
      using fs(2) by (auto simp: WriteFrame_iff)
    ultimately show ?case
      by (intro exI [of _ "b # bodies"]) (simp add: fs)
  qed simp
  then show thesis
    using that by blast
qed

text \<open>The notes written to a stream with \<open>WriteFrame\<close> read back, frame by frame, as the same JSON trees in the
  same order, and then as a clean end; strings come back with invalid UTF-8 replaced.\<close>

lemma written_notes_read_back:
  assumes "map (\<lambda>j. WriteFrame (Some j)) js = map Inr fs"
    and "list_all (\<lambda>j. nums_ok j \<and> depth j \<le> maxNestingDepth) js"
  shows "\<exists>bodies. read_frames (Suc (length js)) (concat fs) = (bodies, Some EndOfStream) \<and>
    map (\<lambda>b. json_parse (string_of b)) bodies = map (\<lambda>j. Some (clean j)) js"
proof -
  have written: "map WriteFrame (map Some js) = map Inr fs"
    using assms(1) by (simp add: comp_def)
  obtain bodies where bodies: "map marshal (map Some js) = map Some bodies" "fs = map frame_of bodies"
      "list_all (\<lambda>b. length b \<le> MaxFrameSize) bodies"
    by (rule written_bodies [OF written])
  have "bodies = map (\<lambda>j. bytes_of (json_text j)) js"
    using bodies(1) by (induction bodies arbitrary: js) (auto simp: marshal_def)
  then have "map (\<lambda>b. json_parse (string_of b)) bodies = map (\<lambda>j. Some (clean j)) js"
    using assms(2) by (auto simp: list_all_iff parse_text)
  moreover have "length bodies = length js"
    using bodies(1) by (metis length_map)
  moreover have "fr.gets (Suc (length js)) (concat (map frame_of bodies)) = (bodies, Some EndOfStream)"
    using bodies(3) calculation(2) by (intro fr.gets_puts) simp_all
  ultimately show ?thesis
    using bodies(2) by (auto simp: read_frames_gets)
qed

definition ex_trees :: "json list" where
  "ex_trees = [JObj [(''type'', JStr ''emit_ack''), (''id'', JNum ''5''), (''status'', JStr ''ok'')], JArr [JNull, JBool True]]"

lemma uint32_of_four: "length hdr = 4 \<Longrightarrow> put_uint32 (uint32_of hdr) = hdr"
proof -
  assume "length hdr = 4"
  then obtain a b c d :: byte where hdr: "hdr = [a, b, c, d]"
    by (auto simp: length_Suc_conv eval_nat_numeral)
  define n where "n = 256 * (256 * (256 * unat a + unat b) + unat c) + unat d"
  have small: "unat a < 256" "unat b < 256" "unat c < 256" "unat d < 256"
    by (rule unat_byte_less)+
  have "uint32_of hdr = word_of_nat n"
    by (simp only: uint32_of_def hdr foldl.simps n_def mult_0_right add_0)
  moreover have "n < 2 ^ 32"
    using small by (simp add: n_def)
  ultimately have n: "unat (uint32_of hdr) = n"
    by (simp add: unsigned_of_nat take_bit_eq_mod)
  have digit: "(256 * q + x) div 256 = q" "(256 * q + x) mod 256 = x" if "x < 256" for q x :: nat
    using that by simp_all
  have n1: "n div 256 = 256 * (256 * unat a + unat b) + unat c" "n mod 256 = unat d"
    unfolding n_def by (rule digit [OF small(4)])+
  have n2: "n div 256 div 256 = 256 * unat a + unat b" "n div 256 mod 256 = unat c"
    unfolding n1 by (rule digit [OF small(3)])+
  have n3: "n div 256 div 256 div 256 = unat a" "n div 256 div 256 mod 256 = unat b"
    unfolding n2 by (rule digit [OF small(2)])+
  have digits: "n div 256 ^ 3 = unat a" "n div 256 ^ 2 mod 256 = unat b" "n div 256 mod 256 = unat c" "n mod 256 = unat d"
    using n1(2) n2(2) n3 by (simp_all only: power2_eq_square power3_eq_cube div_mult2_eq)
  have byte: "word_of_nat k = x" if "k mod 256 = unat x" for k and x :: byte
    by (rule word_unat_eq_iff [THEN iffD2]) (simp add: unsigned_of_nat take_bit_eq_mod that)
  have "put_uint32 (uint32_of hdr) =
      [word_of_nat (n div 256 ^ 3), word_of_nat (n div 256 ^ 2), word_of_nat (n div 256), word_of_nat n]"
    by (simp only: put_uint32_def n)
  also have "\<dots> = hdr"
    unfolding hdr using digits small(1) by (simp only: byte mod_less)
  finally show ?thesis .
qed

lemma ReadFrame_Inr:
  assumes "ReadFrame bs = Inr (body, rest)"
  shows "length body \<le> MaxFrameSize \<and> bs = put_uint32 (word_of_nat (length body)) @ body @ rest"
proof -
  obtain hdr r where hdr: "read_full 4 bs = Inr (hdr, r)" "unat (uint32_of hdr) \<le> MaxFrameSize"
      "read_full (unat (uint32_of hdr)) r = Inr (body, rest)"
    using assms by (auto simp: ReadFrame_eq err_iffs Let_def split: if_splits)
  then have "length hdr = 4" "bs = hdr @ r" "length body = unat (uint32_of hdr)" "r = body @ rest"
    by (auto simp: read_full_Inr)
  then show ?thesis
    using hdr(2) uint32_of_four [of hdr] by simp
qed

text \<open>C24: \<open>ReadFrame\<close> accepts nothing but frames as \<open>WriteFrame\<close> forms them and leaves the rest of the stream
  untouched. On every stream, well formed or not, it makes at most one buffer for a body, of no more than
  \<open>MaxFrameSize\<close> bytes, before it reads into it; and when the prefix announces more it returns \<open>ErrFrameTooLarge\<close> with
  no buffer made and nothing read but the prefix.\<close>

theorem ReadFrame_accepts_frames:
  "(\<forall>body rest. ReadFrame bs = Inr (body, rest) \<longrightarrow>
      length body \<le> MaxFrameSize \<and> bs = put_uint32 (word_of_nat (length body)) @ body @ rest) \<and>
   (fst (read_frame bs) = [ReadFull 4] \<or>
      (\<exists>n. n \<le> MaxFrameSize \<and> fst (read_frame bs) = [ReadFull 4, MakeBody n, ReadFull n])) \<and>
   (4 \<le> length bs \<and> MaxFrameSize < unat (uint32_of (take 4 bs)) \<longrightarrow>
      ReadFrame bs = Inl FrameTooLarge \<and> fst (read_frame bs) = [ReadFull 4])"
proof (intro conjI allI impI)
  fix body rest
  assume "ReadFrame bs = Inr (body, rest)"
  then show "length body \<le> MaxFrameSize" "bs = put_uint32 (word_of_nat (length body)) @ body @ rest"
    using ReadFrame_Inr by blast+
next
  show "fst (read_frame bs) = [ReadFull 4] \<or>
      (\<exists>n. n \<le> MaxFrameSize \<and> fst (read_frame bs) = [ReadFull 4, MakeBody n, ReadFull n])"
    by (auto simp: read_frame_def Let_def split: sum.split)
next
  assume "4 \<le> length bs \<and> MaxFrameSize < unat (uint32_of (take 4 bs))"
  then show "ReadFrame bs = Inl FrameTooLarge" "fst (read_frame bs) = [ReadFull 4]"
    by (simp_all add: ReadFrame_def read_frame_def read_full_def)
qed

theorem ReadFrame_accepts_frames_witness:
  "[0, 0, 0, 2, 0x7B, 0x7D, 7 :: byte] = put_uint32 (word_of_nat (length [0x7B, 0x7D :: byte])) @ [0x7B, 0x7D] @ [7] \<and>
   ReadFrame [4, 0, 0, 1, 0x7B] = Inl FrameTooLarge \<and> fst (read_frame [4, 0, 0, 1, 0x7B]) = [ReadFull 4]"
proof -
  have "ReadFrame [0, 0, 0, 2, 0x7B, 0x7D, 7] = Inr ([0x7B, 0x7D], [7])"
    by (simp add: ReadFrame_eq read_full_def uint32_of_def MaxFrameSize_def)
  then show ?thesis
    using ReadFrame_accepts_frames [of "[0, 0, 0, 2, 0x7B, 0x7D, 7]"] ReadFrame_accepts_frames [of "[4, 0, 0, 1, 0x7B]"]
    by (simp add: uint32_of_def MaxFrameSize_def)
qed

text \<open>C25: what a stream cut short reads as. Cut inside the prefix or inside the body it is \<open>io.ErrUnexpectedEOF\<close>, but
  cut right after the prefix it is \<open>io.EOF\<close>, as at a frame boundary.\<close>

theorem truncated_frame_error:
  assumes "body \<noteq> []" "length body \<le> MaxFrameSize" "k < 4 + length body"
  shows "ReadFrame (take k (put_uint32 (word_of_nat (length body)) @ body)) =
    Inl (if k = 0 \<or> k = 4 then EndOfStream else UnexpectedEnd)"
proof (cases "k < 4")
  case True
  moreover have "put_uint32 n \<noteq> []" for n
    by (simp add: put_uint32_def)
  ultimately show ?thesis
    by (auto simp: ReadFrame_eq read_full_def)
next
  case False
  then have "read_full 4 (take k (put_uint32 (word_of_nat (length body)) @ body)) =
      Inr (put_uint32 (word_of_nat (length body)), take (k - 4) body)"
    by (simp add: read_full_def)
  then show ?thesis
    using assms False by (auto simp: ReadFrame_eq Let_def unat_length read_full_def)
qed

theorem truncated_frame_error_witness:
  "ReadFrame (take 4 (put_uint32 (word_of_nat (length [0x7B, 0x7D :: byte])) @ [0x7B, 0x7D])) =
    Inl (if (4 :: nat) = 0 \<or> (4 :: nat) = 4 then EndOfStream else UnexpectedEnd)"
  by (rule truncated_frame_error) (simp_all add: MaxFrameSize_def)

section \<open>Handler notes\<close>

lemma fold_names [simp]:
  "names ''type'' ''type''" "names ''id'' ''id''" "names ''deliver'' ''deliver''" "names ''selector'' ''selector''"
  "names ''data'' ''data''" "names ''status'' ''status''" "names ''error'' ''error''"
  "\<not> names ''type'' ''id''" "\<not> names ''type'' ''deliver''" "\<not> names ''type'' ''selector''"
  "\<not> names ''type'' ''data''" "\<not> names ''type'' ''status''" "\<not> names ''type'' ''error''"
  "\<not> names ''id'' ''deliver''" "\<not> names ''id'' ''selector''" "\<not> names ''id'' ''data''" "\<not> names ''id'' ''status''"
  "\<not> names ''id'' ''error''" "\<not> names ''deliver'' ''selector''" "\<not> names ''deliver'' ''data''"
  "\<not> names ''selector'' ''data''" "\<not> names ''status'' ''error''"
  by code_simp+

lemma valid_literals [simp]:
  "sanitize ''type'' = ''type''" "sanitize ''id'' = ''id''" "sanitize ''deliver'' = ''deliver''"
  "sanitize ''selector'' = ''selector''" "sanitize ''data'' = ''data''" "sanitize ''status'' = ''status''"
  "sanitize ''error'' = ''error''" "sanitize TypeEmit = TypeEmit" "sanitize TypeDone = TypeDone"
  "sanitize TypePickup = TypePickup"
  by code_simp+

lemma sint_int64: "- (2 ^ 63) \<le> sint (i :: int64)" "sint (i :: int64) < 2 ^ 63"
  using sint_greater_eq [of i] sint_less [of i] by simp_all

lemma int64_json_simps [simp]:
  "nums_ok (int64_json i)"
  "clean (int64_json i) = int64_json i"
  "depth (int64_json i) = 0"
  "into_int64 j (int64_json i) = Some i"
  using int_literal_itoa [OF sint_int64, of i] by (simp_all add: int64_json_def)

text \<open>Values that read back as themselves: what JSON can say, strings in UTF-8, and floats whose text reads back.\<close>

fun plain :: "goval \<Rightarrow> bool" where
  "plain GNil \<longleftrightarrow> True"
| "plain (GBool b) \<longleftrightarrow> True"
| "plain (GFloat w) \<longleftrightarrow> (case format_float w of None \<Rightarrow> False | Some s \<Rightarrow> valid_number s \<and> parse_float s = Some w)"
| "plain (GStr s) \<longleftrightarrow> valid_utf8 s"
| "plain (GSlice vs) \<longleftrightarrow> list_all plain vs"
| "plain (GMap m) \<longleftrightarrow> mwf m \<and> list_all (\<lambda>(k, v). valid_utf8 k \<and> plain v) m"
| "plain _ \<longleftrightarrow> False"

fun nesting :: "goval \<Rightarrow> nat" where
  "nesting (GSlice vs) = Suc (max_of (map nesting vs))"
| "nesting (GMap m) = Suc (max_of (map (\<lambda>(k, v). nesting v) m))"
| "nesting _ = 0"

definition reads_as :: "goval \<Rightarrow> json \<Rightarrow> bool" where
  "reads_as v j \<longleftrightarrow> to_json v = Some j \<and> nums_ok j \<and> depth j = nesting v \<and> of_json (clean j) = Some v"

lemma map_of_rev_distinct: "distinct (map fst m) \<Longrightarrow> map_of (rev m) = map_of m"
  by (simp add: map_of_inject_set flip: rev_map)

lemma mput_all_self: "mwf m \<Longrightarrow> mput_all m [] = m"
  by (intro mwf_ext) (auto simp: fun_eq_iff map_of_mput_all map_of_rev_distinct mwf_distinct mwf_mput_all split: option.split)

lemma choose_list: "list_all (\<lambda>x. \<exists>y. P x y) xs \<Longrightarrow> \<exists>ys. list_all2 P xs ys"
  by (induction xs) (auto intro: exI [of _ "_ # _"])

lemma reads_as_list:
  assumes "list_all2 reads_as vs js"
  shows "all_some (map to_json vs) = Some js \<and> list_all nums_ok js \<and> map depth js = map nesting vs \<and>
    all_some (map (of_json \<circ> clean) js) = Some vs"
  using assms by (induction rule: list_all2_induct) (auto simp: reads_as_def)

definition member_reads :: "string \<times> goval \<Rightarrow> string \<times> json \<Rightarrow> bool" where
  "member_reads m j \<longleftrightarrow> fst m = fst j \<and> valid_utf8 (fst m) \<and> reads_as (snd m) (snd j)"

lemma reads_as_members:
  assumes "list_all2 member_reads ms js"
  shows "all_some (map (\<lambda>(k, v). map_option (Pair k) (to_json v)) ms) = Some js \<and>
    list_all (\<lambda>(k, v). nums_ok v) js \<and> map (\<lambda>(k, v). depth v) js = map (\<lambda>(k, v). nesting v) ms \<and>
    all_some (map ((\<lambda>(k, v). map_option (Pair k) (of_json v)) \<circ> (\<lambda>(k, v). (sanitize k, clean v))) js) = Some ms"
  using assms by (induction rule: list_all2_induct) (auto simp: member_reads_def reads_as_def sanitize_valid)

lemma plain_reads: "plain v \<Longrightarrow> \<exists>j. reads_as v j"
proof (induction v)
  case (GFloat w)
  then show ?case
    by (auto simp: reads_as_def split: option.splits)
next
  case (GSlice vs)
  then obtain js where js: "list_all2 reads_as vs js"
    using choose_list [of reads_as vs] by (auto simp: list_all_iff)
  then show ?case
    using reads_as_list [OF js] by (intro exI [of _ "JArr js"]) (simp add: reads_as_def)
next
  case (GMap m)
  have "list_all (\<lambda>x. \<exists>y. member_reads x y) m"
    using GMap by (fastforce simp: list_all_iff member_reads_def)
  then obtain js where js: "list_all2 member_reads m js"
    using choose_list [of member_reads m] by auto
  then show ?case
    using reads_as_members [OF js] GMap.prems
    by (intro exI [of _ "JObj js"]) (simp add: reads_as_def mput_all_self)
next
  case GNil
  show ?case by (rule exI [of _ JNull]) (simp add: reads_as_def)
next
  case (GBool b)
  show ?case by (rule exI [of _ "JBool b"]) (simp add: reads_as_def)
next
  case (GStr s)
  then show ?case by (intro exI [of _ "JStr s"]) (simp add: reads_as_def sanitize_valid)
qed simp_all

definition plain_dict :: "gdict \<Rightarrow> bool" where
  "plain_dict d = (case d of None \<Rightarrow> True | Some m \<Rightarrow> plain (GMap m) \<and> Suc (nesting (GMap m)) \<le> maxNestingDepth)"

lemma plain_dict_reads:
  assumes "plain_dict d"
  obtains j where "dict_json d = Some j" "nums_ok j" "Suc (depth j) \<le> maxNestingDepth" "into_dict None (clean j) = Some d"
proof (cases d)
  case None
  then show thesis
    using that [of JNull] by (simp add: dict_json_def maxNestingDepth_def)
next
  case (Some m)
  then obtain j where j: "reads_as (GMap m) j"
    using assms plain_reads [of "GMap m"] by (auto simp: plain_dict_def)
  then obtain ms where ms: "j = JObj ms"
    by (auto simp: reads_as_def)
  have "into_dict None (clean j) = Some (Some m)"
    using j by (auto simp: reads_as_def ms)
  then show thesis
    using that [of j] j assms Some by (simp add: reads_as_def dict_json_def plain_dict_def)
qed

fun note_json :: "handler_note \<Rightarrow> json option" where
  "note_json (HEmit e) = emit_json e"
| "note_json (HDone d) = done_json d"
| "note_json (HPickup p) = pickup_json p"

fun plain_note :: "handler_note \<Rightarrow> bool" where
  "plain_note (HEmit e) \<longleftrightarrow> valid_utf8 (em_selector e) \<and> plain_dict (em_data e)"
| "plain_note (HDone d) \<longleftrightarrow> valid_utf8 (do_status d) \<and> valid_utf8 (do_error d)"
| "plain_note (HPickup p) \<longleftrightarrow> True"

lemma read_written:
  assumes "WriteFrame (Some j) = Inr f" "nums_ok j" "depth j \<le> maxNestingDepth"
  shows "Read (f @ rest) = bindE (note_of_body (bytes_of (json_text j))) (\<lambda>n. Inr (n, rest))"
proof -
  obtain body where "marshal (Some j) = Some body" "length body \<le> MaxFrameSize" "f = frame_of body"
    using assms(1) by (auto simp: WriteFrame_iff)
  then show ?thesis
    by (simp add: Read_def ReadFrame_frame marshal_def)
qed

lemma unmarshal_text: "nums_ok j \<Longrightarrow> depth j \<le> maxNestingDepth \<Longrightarrow>
    unmarshal dec (bytes_of (json_text j)) = dec (clean j)"
  by (simp add: unmarshal_def parse_text)

lemma note_reads_back:
  assumes "plain_note n" "WriteFrame (note_json n) = Inr f"
  shows "Read (f @ rest) = Inr (n, rest)"
proof (cases n)
  case (HEmit e)
  obtain d where d: "dict_json (em_data e) = Some d" "nums_ok d" "Suc (depth d) \<le> maxNestingDepth"
      "into_dict None (clean d) = Some (em_data e)"
    using assms(1) HEmit plain_dict_reads by auto
  define j where "j = JObj ([(''type'', JStr TypeEmit), (''id'', int64_json (em_id e))] @
     (if em_deliver e = 0 then [] else [(''deliver'', int64_json (em_deliver e))]) @
     [(''selector'', JStr (em_selector e)), (''data'', d)])"
  have j: "note_json n = Some j" "nums_ok j" "depth j \<le> maxNestingDepth"
    using d(1-3) by (simp_all add: HEmit emit_json_def j_def)
  have selector: "sanitize (em_selector e) = em_selector e"
    using assms(1) HEmit by (simp add: sanitize_valid)
  have "into_struct peek_field [] (clean j) = Some TypeEmit"
    using selector by (simp add: j_def peek_field_def)
  moreover have "into_struct emit_field zero_emit (clean j) = Some e"
    using selector d(4) by (simp add: j_def emit_field_def zero_emit_def)
  ultimately show ?thesis
    using read_written [of j f rest] assms(2) j
    by (simp add: note_of_body_def unmarshal_text HEmit)
next
  case (HDone d)
  define j where "j = JObj ([(''type'', JStr TypeDone), (''id'', int64_json (do_id d)),
     (''status'', JStr (do_status d))] @ str_opt ''error'' (do_error d))"
  have j: "note_json n = Some j" "nums_ok j" "depth j \<le> maxNestingDepth"
    by (simp_all add: HDone done_json_def j_def str_opt_def maxNestingDepth_def)
  have texts: "sanitize (do_status d) = do_status d" "sanitize (do_error d) = do_error d"
    using assms(1) HDone by (simp_all add: sanitize_valid)
  have "into_struct peek_field [] (clean j) = Some TypeDone"
    by (simp add: j_def peek_field_def str_opt_def)
  moreover have "into_struct done_field zero_done (clean j) = Some d"
    using texts by (simp add: j_def done_field_def zero_done_def str_opt_def)
  ultimately show ?thesis
    using read_written [of j f rest] assms(2) j
    by (simp add: note_of_body_def unmarshal_text HDone TypeDone_def TypeEmit_def)
next
  case (HPickup p)
  define j where "j = JObj [(''type'', JStr TypePickup), (''id'', int64_json (pk_id p))]"
  have j: "note_json n = Some j" "nums_ok j" "depth j \<le> maxNestingDepth"
    by (simp_all add: HPickup pickup_json_def j_def maxNestingDepth_def)
  have "into_struct peek_field [] (clean j) = Some TypePickup"
    by (simp add: j_def peek_field_def)
  moreover have "into_struct pickup_field zero_pickup (clean j) = Some p"
    by (simp add: j_def pickup_field_def zero_pickup_def)
  ultimately show ?thesis
    using read_written [of j f rest] assms(2) j
    by (simp add: note_of_body_def unmarshal_text HPickup TypePickup_def TypeDone_def TypeEmit_def)
qed

text \<open>C23: the round trip of the notes a handler sends. A note with UTF-8 strings and plain data, written by
  \<open>WriteFrame\<close> in the form of its struct tags, is read back by \<open>Reader.Read\<close> as the same note, with the rest of the
  stream left for the next read; \<open>Type\<close> selects the kind.\<close>

theorem handler_note_roundtrip:
  assumes "plain_note n" "WriteFrame (note_json n) = Inr f"
  shows "Read (f @ rest) = Inr (n, rest)"
  using assms by (rule note_reads_back)

definition ex_note :: handler_note where
  "ex_note = HEmit \<lparr>em_id = 3, em_deliver = 7, em_selector = ''v3.report.vuln'',
     em_data = Some [(''open'', GBool True), (''ports'', GSlice [GStr ''80'', GStr ''443''])]\<rparr>"

definition ex_frame :: bytes where
  "ex_frame = frame_of (bytes_of (json_text (the (note_json ex_note))))"

lemma ex_frame_written: "WriteFrame (note_json ex_note) = Inr ex_frame"
proof -
  have "note_json ex_note \<noteq> None" "length (bytes_of (json_text (the (note_json ex_note)))) \<le> 200"
    by code_simp+
  then show ?thesis
    by (auto simp: WriteFrame_iff ex_frame_def marshal_def MaxFrameSize_def)
qed

lemma ex_note_plain: "plain_note ex_note"
proof -
  have "valid_utf8 ''v3.report.vuln''"
      "plain (GMap [(''open'', GBool True), (''ports'', GSlice [GStr ''80'', GStr ''443''])])"
    by code_simp+
  then show ?thesis
    by (simp add: ex_note_def plain_dict_def maxNestingDepth_def)
qed

lemma ex_note_read: "Read ex_frame = Inr (ex_note, [])"
  using note_reads_back [OF ex_note_plain ex_frame_written, of "[]"] by simp

theorem handler_note_roundtrip_witness: "Read (ex_frame @ [0, 0, 0, 9]) = Inr (ex_note, [0, 0, 0, 9])"
  by (rule handler_note_roundtrip [OF ex_note_plain ex_frame_written])

text \<open>What cannot be marshalled is not written: the writer drops a deliver note whose metadata holds, say, a NaN.\<close>

definition nan_bits :: "64 word" where
  "nan_bits = 0x7FF8000000000001"

lemma nan_not_written: "to_json (GFloat nan_bits) = None"
  by (simp add: nan_bits_def format_float_def sign_bit_def inf_bits_def Let_def)

end
