(* ===== verification/Worker_Stream.thy ===== *)
theory Worker_Stream
  imports Note_Wire_Properties Worker_Properties
begin

text \<open>
  The two byte streams of a handler process (\<open>internal/worker/worker.go\<close> over \<open>internal/note/wire.go\<close>): \<open>writeNote\<close>
  and what a process's stdin holds, and \<open>readLoop\<close> over what its stdout yields. A stdout that has ended is a list
  of bytes.
\<close>

section \<open>Writing to a process\<close>

fun out_json :: "out_note \<Rightarrow> json option" where
  "out_json (ODeliver n) = deliver_json n"
| "out_json (OEmitAck n) = emit_ack_json n"

fun writeNote :: "out_note \<Rightarrow> frame_error + bytes" where
  "writeNote (ODeliver n) = write_deliver n"
| "writeNote (OEmitAck n) = write_emit_ack n"

text \<open>An error of the writer is only logged, so a note it cannot write leaves no bytes.\<close>

definition stdin_bytes :: "proc \<Rightarrow> bytes" where
  "stdin_bytes p = concat (map (\<lambda>o'. case writeNote o' of Inl _ \<Rightarrow> [] | Inr f \<Rightarrow> f) (p_stdin p))"

text \<open>What a handler reads: the JSON trees of the frames, and the error that ends the stream.\<close>

definition received :: "bytes \<Rightarrow> json option list \<times> frame_error option" where
  "received bs = (case read_frames (Suc (length bs)) bs of
     (bodies, e) \<Rightarrow> (map (\<lambda>b. json_parse (string_of b)) bodies, e))"

definition tree_ok :: "json \<Rightarrow> bool" where
  "tree_ok j \<longleftrightarrow> nums_ok j \<and> depth j \<le> maxNestingDepth"

definition note_frame :: "json \<Rightarrow> bytes" where
  "note_frame j = frame_of (bytes_of (json_text j))"

lemma length_concat_frames: "length xs \<le> length (concat (map frame_of xs))"
  by (induction xs) (simp_all add: frame_of_def)

lemma received_frames:
  assumes "list_all tree_ok js" "list_all (\<lambda>j. length (json_text j) \<le> MaxFrameSize) js"
  shows "received (concat (map note_frame js)) = (map (\<lambda>j. Some (clean j)) js, Some EndOfStream)"
proof -
  define bodies where "bodies = map (\<lambda>j. bytes_of (json_text j)) js"
  have frames: "concat (map note_frame js) = concat (map frame_of bodies)"
    unfolding bodies_def by (induction js) (simp_all add: note_frame_def)
  have "length bodies < Suc (length (concat (map frame_of bodies)))"
    using length_concat_frames [of bodies] by simp
  moreover have "list_all (\<lambda>b. length b \<le> MaxFrameSize) bodies"
    using assms(2) by (simp add: bodies_def list_all_iff)
  ultimately have "fr.gets (Suc (length (concat (map frame_of bodies)))) (concat (map frame_of bodies)) = (bodies, Some EndOfStream)"
    by (rule fr.gets_puts [rotated])
  moreover have "map (\<lambda>b. json_parse (string_of b)) bodies = map (\<lambda>j. Some (clean j)) js"
    using assms(1) by (auto simp: bodies_def list_all_iff tree_ok_def parse_text)
  ultimately show ?thesis
    by (simp add: received_def frames read_frames_gets del: fr.gets.simps)
qed

lemma WriteFrame_tree: "WriteFrame (Some j) = Inr f \<longleftrightarrow> length (json_text j) \<le> MaxFrameSize \<and> f = note_frame j"
  by (auto simp: WriteFrame_iff marshal_def note_frame_def)

lemma writeNote_json: "writeNote o' = WriteFrame (out_json o')"
  by (cases o') (simp_all add: write_deliver_def write_emit_ack_def)

text \<open>The trees of the notes that were written.\<close>

definition written_tree :: "out_note \<Rightarrow> json list" where
  "written_tree o' = (case out_json o' of
     Some j \<Rightarrow> if length (json_text j) \<le> MaxFrameSize then [j] else []
   | None \<Rightarrow> [])"

lemma writeNote_tree: "(case writeNote o' of Inl _ \<Rightarrow> [] | Inr f \<Rightarrow> f) = concat (map note_frame (written_tree o'))"
proof (cases "out_json o'")
  case None
  then show ?thesis
    by (simp add: writeNote_json written_tree_def WriteFrame_def marshal_def)
next
  case (Some j)
  then show ?thesis
    by (cases "length (json_text j) \<le> MaxFrameSize")
      (simp_all add: writeNote_json written_tree_def WriteFrame_def marshal_def note_frame_def frame_of_def not_le)
qed

lemma stdin_trees: "stdin_bytes p = concat (map note_frame (concat (map written_tree (p_stdin p))))"
proof -
  have "concat (map (\<lambda>o'. concat (map note_frame (written_tree o'))) os) =
      concat (map note_frame (concat (map written_tree os)))" for os
    by (induction os) simp_all
  then show ?thesis
    by (simp add: stdin_bytes_def writeNote_tree)
qed

section \<open>Notes that read back\<close>

definition plain_headers :: "gdict \<Rightarrow> bool" where
  "plain_headers h \<longleftrightarrow> plain_dict h \<and> (case h of None \<Rightarrow> True | Some m \<Rightarrow> nesting (GMap m) + 2 \<le> maxNestingDepth)"

definition plain_message :: "delivery \<Rightarrow> bool" where
  "plain_message d \<longleftrightarrow> plain_dict (d_data d) \<and> plain_headers (meta_headers (d_meta d))"

lemma plain_dict_json:
  assumes "plain_dict d"
  shows "\<exists>j. dict_json d = Some j \<and> nums_ok j \<and> depth j = (case d of None \<Rightarrow> 0 | Some m \<Rightarrow> nesting (GMap m)) \<and>
    Suc (depth j) \<le> maxNestingDepth"
proof (cases d)
  case None
  then show ?thesis
    by (simp add: dict_json_def maxNestingDepth_def)
next
  case (Some m)
  then obtain j where "reads_as (GMap m) j"
    using assms plain_reads [of "GMap m"] by (auto simp: plain_dict_def)
  then show ?thesis
    using assms by (auto simp: reads_as_def dict_json_def plain_dict_def Some)
qed

lemma nums_str_opt [simp]: "list_all (\<lambda>(k, v). nums_ok v) (str_opt name s)" "max_of (map (\<lambda>(k, v). depth v) (str_opt name s)) = 0"
  by (simp_all add: str_opt_def)

lemma plain_dict_opt:
  assumes "plain_dict d"
  shows "\<exists>ms. dict_opt name d = Some ms \<and> list_all (\<lambda>(k, v). nums_ok v) ms \<and>
    max_of (map (\<lambda>(k, v). depth v) ms) \<le> (case d of None \<Rightarrow> 0 | Some m \<Rightarrow> nesting (GMap m)) \<and>
    Suc (max_of (map (\<lambda>(k, v). depth v) ms)) \<le> maxNestingDepth"
  using plain_dict_json [OF assms] by (auto simp: dict_opt_def maxNestingDepth_def split: option.split list.split)

lemma max_of_append: "max_of (xs @ ys) = max (max_of xs) (max_of ys)"
  by (induction xs) simp_all

lemma deliver_tree:
  assumes "plain_message d"
  shows "\<exists>j. deliver_json (deliver_of i d) = Some j \<and> tree_ok j"
proof -
  obtain x where x: "dict_json (d_data d) = Some x" "nums_ok x" "Suc (depth x) \<le> maxNestingDepth"
    using assms plain_dict_json [of "d_data d"] by (auto simp: plain_message_def)
  obtain ms where ms: "dict_opt ''headers'' (meta_headers (d_meta d)) = Some ms" "list_all (\<lambda>(k, v). nums_ok v) ms"
      "Suc (Suc (max_of (map (\<lambda>(k, v). depth v) ms))) \<le> maxNestingDepth"
    using assms plain_dict_opt [of "meta_headers (d_meta d)" "''headers''"]
    by (fastforce simp: plain_message_def plain_headers_def maxNestingDepth_def split: option.splits)
  show ?thesis
    using x ms by (simp add: deliver_json_def deliver_of_def meta_json_def tree_ok_def max_of_append)
qed

lemma emit_ack_tree: "\<exists>j. emit_ack_json a = Some j \<and> tree_ok j"
  by (simp add: emit_ack_json_def tree_ok_def max_of_append maxNestingDepth_def)

lemma init_tree:
  assumes "plain_dict (in_config n)"
  shows "\<exists>j. init_json n = Some j \<and> tree_ok j"
proof -
  obtain ms where ms: "dict_opt ''config'' (in_config n) = Some ms" "list_all (\<lambda>(k, v). nums_ok v) ms"
      "Suc (max_of (map (\<lambda>(k, v). depth v) ms)) \<le> maxNestingDepth"
    using plain_dict_opt [OF assms] by blast
  have strs: "list_all nums_ok (map JStr ss)" "max_of (map depth (map JStr ss)) = 0" for ss
    by (induction ss) simp_all
  show ?thesis
    using ms strs by (simp add: init_json_def identity_json_def tree_ok_def max_of_append maxNestingDepth_def)
qed


text \<open>A message whose headers hold a value JSON cannot say is never written, although it stays in flight.\<close>

lemma unwritable_headers:
  assumes "meta_headers (d_meta d) = Some [(k, GFloat nan_bits)]"
  shows "writeNote (ODeliver (deliver_of i d)) = Inl MarshalError"
proof -
  have "format_float nan_bits = None"
    using nan_not_written by simp
  then show ?thesis
    using assms by (auto simp: write_deliver_def deliver_json_def deliver_of_def meta_json_def dict_opt_def dict_json_def
        WriteFrame_def marshal_def split: Option.bind_split)
qed

section \<open>What a handler reads\<close>

fun is_deliver_tree :: "json \<Rightarrow> bool" where
  "is_deliver_tree (JObj (m # ms)) \<longleftrightarrow> m = (''type'', JStr ''deliver'')"
| "is_deliver_tree _ \<longleftrightarrow> False"

definition deliver_tree_of :: "int64 \<times> delivery \<Rightarrow> json" where
  "deliver_tree_of = (\<lambda>(i, d). clean (the (deliver_json (deliver_of i d))))"

lemma clean_deliver: "deliver_json n = Some j \<Longrightarrow> is_deliver_tree (clean j)"
  by (auto simp: deliver_json_def TypeDeliver_def sanitize_valid valid_ascii split: Option.bind_splits)

lemma clean_emit_ack: "emit_ack_json a = Some j \<Longrightarrow> \<not> is_deliver_tree (clean j)"
  by (auto simp: emit_ack_json_def TypeEmitAck_def sanitize_valid valid_ascii)

lemma written_tree_cases: "j \<in> set (written_tree o') \<Longrightarrow> out_json o' = Some j \<and> length (json_text j) \<le> MaxFrameSize"
  by (auto simp: written_tree_def split: option.splits if_splits)

text \<open>The deliver trees among the written ones come from the deliver notes, in order.\<close>

lemma deliver_trees:
  assumes "subseq (filter is_deliver os) (map note_for ids)"
  shows "subseq (filter is_deliver_tree (map clean (concat (map written_tree os)))) (map deliver_tree_of ids)"
proof -
  have "subseq (filter is_deliver_tree (map clean (concat (map written_tree os))))
      (map (\<lambda>o'. clean (the (out_json o'))) (filter is_deliver os))"
  proof (induction os)
    case (Cons o' os)
    have tree: "written_tree o' = [] \<or> written_tree o' = [the (out_json o')] \<and> out_json o' \<noteq> None"
      by (auto simp: written_tree_def split: option.split)
    show ?case
    proof (cases o')
      case (ODeliver dn)
      then show ?thesis
        using Cons tree clean_deliver [of dn] by auto
    next
      case (OEmitAck a)
      then show ?thesis
        using Cons tree clean_emit_ack [of a] by auto
    qed
  qed simp
  moreover have "subseq (map (\<lambda>o'. clean (the (out_json o'))) (filter is_deliver os))
      (map (\<lambda>o'. clean (the (out_json o'))) (map note_for ids))"
    using assms by (rule subseq_map)
  moreover have "map (\<lambda>o'. clean (the (out_json o'))) (map note_for ids) = map deliver_tree_of ids"
    by (auto simp: deliver_tree_of_def)
  ultimately show ?thesis
    by (metis subseq_order.trans)
qed

lemma stdin_trees_ok:
  assumes "subseq (filter is_deliver os) (map note_for ids)" "list_all (\<lambda>(i, d). plain_message d) ids"
  shows "list_all tree_ok (concat (map written_tree os)) \<and>
    list_all (\<lambda>j. length (json_text j) \<le> MaxFrameSize) (concat (map written_tree os))"
proof -
  have "tree_ok j" if o': "o' \<in> set os" and j: "j \<in> set (written_tree o')" for o' j
  proof (cases o')
    case (ODeliver dn)
    then have "o' \<in> set (map note_for ids)"
      using o' list_emb_set [OF assms(1), of o'] by auto
    then obtain i d where "(i, d) \<in> set ids" "dn = deliver_of i d"
      using ODeliver by auto
    then show ?thesis
      using assms(2) deliver_tree [of d i] written_tree_cases [OF j] ODeliver by (fastforce simp: list_all_iff)
  next
    case (OEmitAck a)
    then show ?thesis
      using emit_ack_tree [of a] written_tree_cases [OF j] by auto
  qed
  then show ?thesis
    using written_tree_cases by (auto simp: list_all_iff)
qed

text \<open>With plain messages every note on a stdin has its JSON, so only the size limit keeps one from being written.\<close>

definition within_frame :: "out_note \<Rightarrow> bool" where
  "within_frame o' \<longleftrightarrow> length (json_text (the (out_json o'))) \<le> MaxFrameSize"

lemma stdin_notes_json:
  assumes "subseq (filter is_deliver os) (map note_for ids)" "list_all (\<lambda>(i, d). plain_message d) ids" "o' \<in> set os"
  shows "out_json o' \<noteq> None"
proof (cases o')
  case (ODeliver dn)
  then have "o' \<in> set (map note_for ids)"
    using assms(3) list_emb_set [OF assms(1), of o'] by auto
  then obtain i d where "(i, d) \<in> set ids" "dn = deliver_of i d"
    using ODeliver by auto
  then show ?thesis
    using assms(2) deliver_tree [of d i] ODeliver by (fastforce simp: list_all_iff)
next
  case (OEmitAck a)
  then show ?thesis
    using emit_ack_tree [of a] by auto
qed

lemma written_trees:
  assumes "\<forall>o' \<in> set os. out_json o' \<noteq> None"
  shows "concat (map written_tree os) = map (\<lambda>o'. the (out_json o')) (filter within_frame os)"
  using assms by (induction os) (auto simp: written_tree_def within_frame_def)

text \<open>C35: what a handler reads from its stdin, in bytes, with plain messages and config. After any schedule the stream
  parses to the end: first the init note, then, one for one and in order, every note of \<open>p_stdin\<close>, what the writer of
  the process took from its queue and the pipe accepted, whose JSON is within the frame limit (a larger one is
  logged and skipped). The deliver notes there are dispatched messages in the order of dispatch, and so are those
  the handler parses, each with the data and metadata of its message under the id it was registered with.\<close>

theorem handler_reads_dispatched:
  assumes "reachable idx cfg capacity s" "length (s_given s) < 2 ^ 64" "p \<in> set (s_procs s)"
    and "list_all (\<lambda>(i, d). plain_message d) (s_given s)" "plain_dict (c_config cfg)"
    and "write_init (init_of cfg) = Inr ini"
  shows "\<exists>t ts. init_json (init_of cfg) = Some t \<and>
    ts = map (\<lambda>o'. clean (the (out_json o')))
      (filter (\<lambda>o'. length (json_text (the (out_json o'))) \<le> MaxFrameSize) (p_stdin p)) \<and>
    received (ini @ stdin_bytes p) = (map Some (clean t # ts), Some EndOfStream) \<and>
    subseq (filter is_deliver (p_stdin p)) (map note_for (s_given s)) \<and>
    subseq (filter is_deliver_tree ts) (map deliver_tree_of (s_given s))"
proof -
  have sub: "subseq (filter is_deliver (p_stdin p)) (map note_for (s_given s))"
    using assms(1-3) by (rule delivers_in_order)
  define js where "js = concat (map written_tree (p_stdin p))"
  have js: "list_all tree_ok js" "list_all (\<lambda>j. length (json_text j) \<le> MaxFrameSize) js"
    using stdin_trees_ok [OF sub assms(4)] by (simp_all add: js_def)
  obtain t where t: "init_json (init_of cfg) = Some t" "tree_ok t"
    using init_tree [of "init_of cfg"] assms(5) by (auto simp: init_of_def)
  then have ini: "length (json_text t) \<le> MaxFrameSize" "ini = note_frame t"
    using assms(6) WriteFrame_tree [of t ini] by (auto simp: write_init_def)
  have "received (ini @ stdin_bytes p) = (map Some (clean t # map clean js), Some EndOfStream)"
    using received_frames [of "t # js"] js t(2) ini by (simp add: stdin_trees js_def [symmetric])
  moreover have "map clean js = map (\<lambda>o'. clean (the (out_json o'))) (filter within_frame (p_stdin p))"
    using written_trees [of "p_stdin p"] stdin_notes_json [OF sub assms(4)] by (simp add: js_def comp_def)
  moreover have "within_frame = (\<lambda>o'. length (json_text (the (out_json o'))) \<le> MaxFrameSize)"
    by (simp add: within_frame_def fun_eq_iff)
  ultimately show ?thesis
    using t(1) sub deliver_trees [OF sub] unfolding js_def [symmetric] by (intro exI [of _ t] exI [of _ "map clean js"]) simp
qed

lemma ex_plain: "list_all (\<lambda>(i, d). plain_message d) (s_given (ex_after ex_crash 2))"
proof -
  have given: "map snd (s_given (ex_after ex_crash 2)) = [ex_msg 7, ex_msg 8]"
    by code_simp
  have "plain (GMap [(''host'', GStr ''10.0.0.1'')])" "nesting (GMap [(''host'', GStr ''10.0.0.1'')]) = 1"
    by code_simp+
  then have "plain_message (ex_msg n)" for n
    by (simp add: plain_message_def ex_msg_def plain_headers_def plain_dict_def maxNestingDepth_def)
  then have "list_all plain_message (map snd (s_given (ex_after ex_crash 2)))"
    by (simp add: given)
  then show ?thesis
    by (simp add: list_all_iff split_beta)
qed

lemma ex_init_writes: "write_init (init_of ex_cfg) = Inr (note_frame (the (init_json (init_of ex_cfg))))"
proof -
  have "init_json (init_of ex_cfg) \<noteq> None" "length (json_text (the (init_json (init_of ex_cfg)))) \<le> 300"
    by code_simp+
  then show ?thesis
    by (auto simp: write_init_def WriteFrame_tree MaxFrameSize_def)
qed

theorem handler_reads_dispatched_witness:
  "\<exists>t ts. init_json (init_of ex_cfg) = Some t \<and>
    ts = map (\<lambda>o'. clean (the (out_json o')))
      (filter (\<lambda>o'. length (json_text (the (out_json o'))) \<le> MaxFrameSize) (p_stdin (s_procs (ex_after ex_crash 2) ! 0))) \<and>
    received (note_frame (the (init_json (init_of ex_cfg))) @ stdin_bytes (s_procs (ex_after ex_crash 2) ! 0)) =
      (map Some (clean t # ts), Some EndOfStream) \<and>
    subseq (filter is_deliver (p_stdin (s_procs (ex_after ex_crash 2) ! 0))) (map note_for (s_given (ex_after ex_crash 2))) \<and>
    subseq (filter is_deliver_tree ts) (map deliver_tree_of (s_given (ex_after ex_crash 2)))"
  by (rule handler_reads_dispatched [OF ex_reachable [OF ex_crash_runs] _ _ ex_plain _ ex_init_writes])
    (simp_all add: ex_crash_given ex_crash_procs ex_cfg_def plain_dict_def)

section \<open>Reading from a process\<close>

text \<open>\<open>readLoop\<close> without what it does with a note: the notes read, and the error that ends it.\<close>

partial_function (option) read_loop :: "bytes \<Rightarrow> (handler_note list \<times> read_error) option" where
  "read_loop bs =
     (case Read bs of
        Inl e \<Rightarrow> Some ([], e)
      | Inr r \<Rightarrow> Option.bind (read_loop (snd r)) (\<lambda>(ns, e). Some (fst r # ns, e)))"

lemma ReadFrame_takes: "ReadFrame bs = Inr (body, rest) \<Longrightarrow> length bs = 4 + length body + length rest"
  by (auto simp: ReadFrame_eq Let_def err_iffs read_full_Inr split: if_splits)

lemma unmarshal_empty: "unmarshal dec [] = None"
  by (simp add: unmarshal_def string_of_def json_parse_def lex_def)

lemma Read_takes:
  assumes "Read bs = Inr (n, rest)"
  shows "4 + length rest < length bs"
proof -
  obtain body where body: "ReadFrame bs = Inr (body, rest)" "note_of_body body = Inr n"
    using assms by (auto simp: Read_def err_iffs)
  then have "body \<noteq> []"
    by (auto simp: note_of_body_def unmarshal_empty)
  then show ?thesis
    using ReadFrame_takes [OF body(1)] by (cases body) simp_all
qed

text \<open>C36: the read loop ends on every stream, whatever the handler wrote: each note takes more than four bytes, so it
  reads at most a fifth as many notes as there are bytes, and returns with the error that stopped it.\<close>

theorem read_loop_terminates:
  "\<exists>ns e. read_loop bs = Some (ns, e) \<and> 5 * length ns \<le> length bs"
proof (induction bs rule: length_induct)
  case (1 bs)
  show ?case
  proof (cases "Read bs")
    case (Inl e)
    then show ?thesis
      by (simp add: read_loop.simps [of bs])
  next
    case (Inr r)
    then have less: "4 + length (snd r) < length bs"
      using Read_takes [of bs "fst r" "snd r"] by simp
    then obtain ns e where "read_loop (snd r) = Some (ns, e)" "5 * length ns \<le> length (snd r)"
      using 1 [rule_format, of "snd r"] by auto
    then show ?thesis
      using Inr less by (simp add: read_loop.simps [of bs])
  qed
qed

end
