(* ===== verification/Codec.thy ===== *)
theory Codec
  imports Go_Json_Value
begin

text \<open>
  The proto layer, \<open>internal/codec/codec.go\<close> and \<open>registry.go\<close>. The protobuf library is not part of the
  repository: the record \<open>codec_lib\<close> holds the functions of it the code calls, on abstract types of descriptor
  sets \<open>'s\<close>, files \<open>'f\<close>, message descriptors \<open>'d\<close> and messages \<open>'m\<close>. A \<open>Registry\<close> is the files it was built from. A
  \<open>Codec\<close> is the record \<open>protolib\<close>: the library's functions bound to a registry and to the options of \<open>New\<close>, and
  what decodes and encodes takes it as an argument.
\<close>

datatype 'd descriptor = MessageDesc 'd | OtherDesc

text \<open>\<open>FindDescriptorByName\<close>; \<open>proto.Unmarshal\<close> into a new dynamic message and \<open>proto.Marshal\<close>; \<open>protojson\<close>'s
  \<open>Marshal\<close> and \<open>Unmarshal\<close> with the options of \<open>New\<close>. \<open>None\<close> is an error.\<close>

record ('d, 'm) protolib =
  find_descriptor :: "string \<Rightarrow> 'd descriptor option"
  proto_unmarshal :: "'d \<Rightarrow> bytes \<Rightarrow> 'm option"
  proto_marshal :: "'m \<Rightarrow> bytes option"
  protojson_marshal :: "'m \<Rightarrow> bytes option"
  protojson_unmarshal :: "'d \<Rightarrow> bytes \<Rightarrow> 'm option"

text \<open>The library itself. \<open>cl_set\<close> is \<open>proto.Unmarshal\<close> into a \<open>FileDescriptorSet\<close> and \<open>cl_files\<close> \<open>protodesc.NewFiles\<close>; the
  two \<open>protojson\<close> functions take the files of the resolver, \<open>dynamicpb.NewTypes\<close>.\<close>

record marshal_options =
  mo_use_proto_names :: bool
  mo_emit_unpopulated :: bool

record ('s, 'f, 'd, 'm) codec_lib =
  cl_set :: "bytes \<Rightarrow> 's option"
  cl_files :: "'s \<Rightarrow> 'f option"
  cl_find :: "'f \<Rightarrow> string \<Rightarrow> 'd descriptor option"
  cl_unmarshal :: "'d \<Rightarrow> bytes \<Rightarrow> 'm option"
  cl_marshal :: "'m \<Rightarrow> bytes option"
  cl_json_marshal :: "marshal_options \<Rightarrow> 'f \<Rightarrow> 'm \<Rightarrow> bytes option"
  cl_json_unmarshal :: "'f \<Rightarrow> 'd \<Rightarrow> bytes \<Rightarrow> 'm option"

datatype codec_error =
    ParseDescriptors
  | BuildFiles
  | ResolveSelector string string
  | NotAMessage string
  | DecodeWire string
  | MarshalJson string
  | JsonToDict string
  | DictToJson string
  | UnmarshalJson string
  | EncodeWire string

section \<open>The registry and the codec over it\<close>

definition NewRegistry :: "('s, 'f, 'd, 'm) codec_lib \<Rightarrow> bytes \<Rightarrow> codec_error + 'f" where
  "NewRegistry lib fdset =
     bindE (ofOption ParseDescriptors (cl_set lib fdset)) (\<lambda>s. ofOption BuildFiles (cl_files lib s))"

definition New :: "('s, 'f, 'd, 'm) codec_lib \<Rightarrow> 'f \<Rightarrow> ('d, 'm) protolib" where
  "New lib reg =
     \<lparr>find_descriptor = cl_find lib reg, proto_unmarshal = cl_unmarshal lib, proto_marshal = cl_marshal lib,
      protojson_marshal = cl_json_marshal lib \<lparr>mo_use_proto_names = True, mo_emit_unpopulated = False\<rparr> reg,
      protojson_unmarshal = cl_json_unmarshal lib reg\<rparr>"

section \<open>Selectors, decoding and encoding\<close>

definition oxoProtoPackage :: string where
  "oxoProtoPackage = ''ostorlab.agent.message.proto''"

definition messageName :: string where
  "messageName = ''Message''"

definition full_name :: "string \<Rightarrow> string" where
  "full_name selector = oxoProtoPackage @ ''.'' @ selector @ ''.'' @ messageName"

definition Message :: "('d, 'm) protolib \<Rightarrow> string \<Rightarrow> codec_error + 'd" where
  "Message lib selector =
     (case find_descriptor lib (full_name selector) of
        None \<Rightarrow> Inl (ResolveSelector selector (full_name selector))
      | Some OtherDesc \<Rightarrow> Inl (NotAMessage (full_name selector))
      | Some (MessageDesc md) \<Rightarrow> Inr md)"

definition Has :: "('d, 'm) protolib \<Rightarrow> string \<Rightarrow> bool" where
  "Has lib selector = (case Message lib selector of Inl _ \<Rightarrow> False | Inr _ \<Rightarrow> True)"

definition Decode :: "('d, 'm) protolib \<Rightarrow> string \<Rightarrow> bytes \<Rightarrow> codec_error + gdict" where
  "Decode lib selector wire =
     bindE (Message lib selector) (\<lambda>md.
     bindE (ofOption (DecodeWire selector) (proto_unmarshal lib md wire)) (\<lambda>msg.
     bindE (ofOption (MarshalJson selector) (protojson_marshal lib msg)) (\<lambda>js.
     ofOption (JsonToDict selector) (unmarshal (into_dict (Some [])) js))))"

definition Encode :: "('d, 'm) protolib \<Rightarrow> string \<Rightarrow> gdict \<Rightarrow> codec_error + bytes" where
  "Encode lib selector d =
     bindE (Message lib selector) (\<lambda>md.
     bindE (ofOption (DictToJson selector) (marshal (dict_json d))) (\<lambda>js.
     bindE (ofOption (UnmarshalJson selector) (protojson_unmarshal lib md js)) (\<lambda>msg.
     ofOption (EncodeWire selector) (proto_marshal lib msg))))"

section \<open>What the codec guarantees\<close>

lemma Has_iff: "Has lib selector \<longleftrightarrow> (\<exists>md. find_descriptor lib (full_name selector) = Some (MessageDesc md))"
  by (auto simp: Has_def Message_def split: option.split descriptor.split)

lemma Message_Inr: "Message lib selector = Inr md \<longleftrightarrow> find_descriptor lib (full_name selector) = Some (MessageDesc md)"
  by (auto simp: Message_def split: option.split descriptor.split)

lemma full_name_inject [simp]: "full_name a = full_name b \<longleftrightarrow> a = b"
  by (simp add: full_name_def)

text \<open>The documented behaviour of the library the round trip rests on: what \<open>proto.Marshal\<close> writes, \<open>proto.Unmarshal\<close>
  reads back as a message with the same JSON form, and that form is an object.\<close>

definition wire_faithful :: "('d, 'm) protolib \<Rightarrow> bool" where
  "wire_faithful lib \<longleftrightarrow>
     (\<forall>md js msg wire. protojson_unmarshal lib md js = Some msg \<longrightarrow> proto_marshal lib msg = Some wire \<longrightarrow>
        (\<exists>msg'. proto_unmarshal lib md wire = Some msg' \<and> protojson_marshal lib msg' = protojson_marshal lib msg))"

lemma Encode_Inr: "Encode lib selector d = Inr wire \<longleftrightarrow>
    (\<exists>md js msg. Message lib selector = Inr md \<and> marshal (dict_json d) = Some js \<and>
       protojson_unmarshal lib md js = Some msg \<and> proto_marshal lib msg = Some wire)"
  by (auto simp: Encode_def err_iffs)

lemma Decode_Inr: "Decode lib selector wire = Inr d \<longleftrightarrow>
    (\<exists>md msg js. Message lib selector = Inr md \<and> proto_unmarshal lib md wire = Some msg \<and>
       protojson_marshal lib msg = Some js \<and> unmarshal (into_dict (Some [])) js = Some d)"
  by (auto simp: Decode_def err_iffs)

end
