(* ===== verification/Control.thy ===== *)
theory Control
  imports Codec "HOL-Library.Word"
begin

unbundle bit_operations_syntax

text \<open>
  The control envelope and the routing helpers, \<open>internal/bus/control.go\<close>.
\<close>

definition controlSelector :: string where
  "controlSelector = ''v3.control''"

definition selectorFromRoutingKey :: "string \<Rightarrow> string" where
  "selectorFromRoutingKey routingKey =
     (let i = last_index routingKey (CHR ''.'')
      in if i < 0 then routingKey else take (nat i) routingKey)"

definition messageIDFromRoutingKey :: "string \<Rightarrow> string" where
  "messageIDFromRoutingKey routingKey =
     (let i = last_index routingKey (CHR ''.'')
      in if i < 0 then [] else drop (nat (i + 1)) routingKey)"

datatype bus_error =
    WrapControl codec_error
  | UnwrapControl codec_error
  | DecodeInner
  | GenerateID
  | EncodeData string codec_error
  | PublishFailed string
  | DeclareExchange string
  | DeclareQueue string
  | SetQos
  | BindInput string string
  | DialFailed
  | OpenChannel
  | ConsumeFailed string
  | ConsumeClosed
  | ConsumeCancelled

definition control_dict :: "string list \<Rightarrow> bytes \<Rightarrow> dict" where
  "control_dict agents inner = mput_all
     [(''control'', GMap (mput_all [(''agents'', GSlice (map GStr agents))] [])),
      (''message'', GStr (b64_encode inner))] []"

definition wrapControl :: "('d, 'm) protolib \<Rightarrow> string list \<Rightarrow> bytes \<Rightarrow> bus_error + bytes" where
  "wrapControl c agents inner = mapE WrapControl (Encode c controlSelector (Some (control_dict agents inner)))"

text \<open>The strings of a list of dynamic values; the others are skipped.\<close>

fun strings_of :: "goval list \<Rightarrow> string list" where
  "strings_of [] = []"
| "strings_of (v # vs) = (case as_string (Some v) of Some s \<Rightarrow> s # strings_of vs | None \<Rightarrow> strings_of vs)"

definition agentsFromDict :: "gdict \<Rightarrow> string list" where
  "agentsFromDict d =
     (case as_map (dget d ''control'') of
        None \<Rightarrow> []
      | Some control \<Rightarrow>
          (case as_slice (dget (Some control) ''agents'') of
             None \<Rightarrow> []
           | Some raw \<Rightarrow> strings_of raw))"

definition innerFromDict :: "gdict \<Rightarrow> bus_error + bytes" where
  "innerFromDict d =
     (case as_string (dget d ''message'') of
        None \<Rightarrow> Inr []
      | Some s \<Rightarrow> ofOption DecodeInner (b64_decode s))"

definition unwrapControl :: "('d, 'm) protolib \<Rightarrow> bytes \<Rightarrow> bus_error + string list \<times> bytes" where
  "unwrapControl c body =
     bindE (mapE UnwrapControl (Decode c controlSelector body)) (\<lambda>d.
     bindE (innerFromDict d) (\<lambda>inner. Inr (agentsFromDict d, inner)))"

text \<open>\<open>newID\<close>; the argument is what \<open>rand.Read\<close> put into the array of 16 bytes, or \<open>None\<close> when it failed.\<close>

definition set_version :: "bytes \<Rightarrow> bytes" where
  "set_version b =
     (let b = b[6 := (b ! 6 AND 0x0f) OR 0x40] in b[8 := (b ! 8 AND 0x3f) OR 0x80])"

definition slice :: "nat \<Rightarrow> nat \<Rightarrow> 'a list \<Rightarrow> 'a list" where
  "slice i j xs = take (j - i) (drop i xs)"

definition newID :: "bytes option \<Rightarrow> bus_error + string" where
  "newID random =
     (case random of
        None \<Rightarrow> Inl GenerateID
      | Some r \<Rightarrow>
          (let b = set_version r
           in Inr (hex_of (slice 0 4 b) @ ''-'' @ hex_of (slice 4 6 b) @ ''-'' @ hex_of (slice 6 8 b) @ ''-'' @
                   hex_of (slice 8 10 b) @ ''-'' @ hex_of (slice 10 16 b))))"

section \<open>Routing keys\<close>

lemma selector_of_key: "CHR ''.'' \<notin> set i \<Longrightarrow> selectorFromRoutingKey (s @ CHR ''.'' # i) = s"
  by (simp add: selectorFromRoutingKey_def last_index_append Let_def)

lemma id_of_key: "CHR ''.'' \<notin> set i \<Longrightarrow> messageIDFromRoutingKey (s @ CHR ''.'' # i) = i"
  by (simp add: messageIDFromRoutingKey_def last_index_append Let_def nat_add_distrib)

lemma key_without_dot: "CHR ''.'' \<notin> set k \<Longrightarrow> selectorFromRoutingKey k = k \<and> messageIDFromRoutingKey k = []"
  using last_index_neg [of k "CHR ''.''"] by (simp add: selectorFromRoutingKey_def messageIDFromRoutingKey_def Let_def)

lemma newID_no_dot: "newID (Some r) = Inr i \<Longrightarrow> CHR ''.'' \<notin> set i"
  using hex_of_no_dot by (auto simp: newID_def Let_def)

end
