(* ===== verification/Bus.thy ===== *)
theory Bus
  imports Control
begin

text \<open>
  The RabbitMQ transport, \<open>internal/bus/bus.go\<close>. What the bus asks of the AMQP client library is a list of
  requests; the library's answers come from outside: \<open>answer\<close> gives the error of a request, or \<open>None\<close>.
  A delivery of the library carries its tag.
\<close>

section \<open>Data\<close>

record bus_config =
  bc_url :: string
  bc_exchange :: string
  bc_agent :: string
  bc_service :: string
  bc_inputs :: "string list"
  bc_prefetch :: int

record amqp_delivery =
  ad_tag :: nat
  ad_routing_key :: string
  ad_headers :: gdict
  ad_body :: bytes

record bus_delivery =
  bd_selector :: string
  bd_data :: gdict
  bd_chain :: "string list"
  bd_message_id :: string
  bd_headers :: gdict
  bd_tag :: nat

record publishing =
  pub_persistent :: bool
  pub_body :: bytes

datatype table_value = TInt int | TText string

datatype request =
    ReqDial string
  | ReqChannel
  | ReqExchangeDeclare string string bool bool bool bool "(string \<times> table_value) list"
  | ReqQueueDeclare string bool bool bool bool
  | ReqQos int int bool
  | ReqQueueBind string string string bool
  | ReqConsume string string bool bool bool bool
  | ReqAck nat bool
  | ReqNack nat bool bool
  | ReqPublish string string bool bool publishing
  | ReqCloseChannel
  | ReqCloseConn

section \<open>Setting up\<close>

definition queueName :: "bus_config \<Rightarrow> string" where
  "queueName cfg = (let name = bc_service cfg; name = (if name = [] then bc_agent cfg else name) in name @ ''_queue'')"

text \<open>Requests in order, each with the error it is reported as, up to the first that fails.\<close>

fun run_requests :: "(request \<Rightarrow> string option) \<Rightarrow> (request \<times> bus_error) list \<Rightarrow> request list \<times> bus_error option" where
  "run_requests answer [] = ([], None)"
| "run_requests answer ((r, e) # rs) =
     (case answer r of
        Some _ \<Rightarrow> ([r], Some e)
      | None \<Rightarrow> (case run_requests answer rs of (done, err) \<Rightarrow> (r # done, err)))"

definition exchange_args :: "(string \<times> table_value) list" where
  "exchange_args = [(''x-max-length'', TInt 10000), (''x-overflow'', TText ''reject-publish'')]"

definition clamp_prefetch :: "int \<Rightarrow> int" where
  "clamp_prefetch n = (if n < 1 then 1 else n)"

definition setup_requests :: "bus_config \<Rightarrow> (request \<times> bus_error) list" where
  "setup_requests cfg =
     [(ReqExchangeDeclare (bc_exchange cfg) ''topic'' False False False False exchange_args,
       DeclareExchange (bc_exchange cfg)),
      (ReqQueueDeclare (queueName cfg) True False False False, DeclareQueue (queueName cfg)),
      (ReqQos (clamp_prefetch (bc_prefetch cfg)) 0 False, SetQos)] @
     map (\<lambda>sel. let key = sel @ ''.#'' in
       (ReqQueueBind (queueName cfg) key (bc_exchange cfg) False, BindInput key (queueName cfg))) (bc_inputs cfg)"

definition setup_bus :: "(request \<Rightarrow> string option) \<Rightarrow> bus_config \<Rightarrow> request list \<times> bus_error option" where
  "setup_bus answer cfg = run_requests answer (setup_requests cfg)"

text \<open>\<open>Close\<close>: both are closed, whatever the first answers, and the first error is returned.\<close>

definition close_bus :: "(request \<Rightarrow> string option) \<Rightarrow> request list \<times> string option" where
  "close_bus answer =
     ([ReqCloseChannel, ReqCloseConn],
      (case answer ReqCloseChannel of Some e \<Rightarrow> Some e | None \<Rightarrow> answer ReqCloseConn))"

definition connect :: "(request \<Rightarrow> string option) \<Rightarrow> bus_config \<Rightarrow> request list \<times> bus_error option" where
  "connect answer cfg =
     (if answer (ReqDial (bc_url cfg)) \<noteq> None then ([ReqDial (bc_url cfg)], Some DialFailed)
      else if answer ReqChannel \<noteq> None then ([ReqDial (bc_url cfg), ReqChannel, ReqCloseConn], Some OpenChannel)
      else (case setup_bus answer cfg of (reqs, err) \<Rightarrow>
        ([ReqDial (bc_url cfg), ReqChannel] @ reqs @ (if err = None then [] else fst (close_bus answer)), err)))"

section \<open>Consuming\<close>

definition ack_request :: "nat \<Rightarrow> request" where
  "ack_request tag = ReqAck tag False"

definition nack_request :: "nat \<Rightarrow> request" where
  "nack_request tag = ReqNack tag False False"

definition requeue_request :: "nat \<Rightarrow> request" where
  "requeue_request tag = ReqNack tag False True"

datatype outcome = Dropped request | Handed bus_delivery

definition dispatch :: "('d, 'm) protolib \<Rightarrow> amqp_delivery \<Rightarrow> outcome" where
  "dispatch c d =
     (let selector = selectorFromRoutingKey (ad_routing_key d)
      in case unwrapControl c (ad_body d) of
           Inl _ \<Rightarrow> Dropped (nack_request (ad_tag d))
         | Inr (agents, inner) \<Rightarrow>
             (case Decode c selector inner of
                Inl _ \<Rightarrow> Dropped (nack_request (ad_tag d))
              | Inr data' \<Rightarrow> Handed \<lparr>bd_selector = selector, bd_data = data', bd_chain = agents,
                  bd_message_id = messageIDFromRoutingKey (ad_routing_key d), bd_headers = ad_headers d,
                  bd_tag = ad_tag d\<rparr>))"

text \<open>The loop of \<open>Consume\<close> over what its two channels yield, in the order \<open>select\<close> takes them.\<close>

datatype consume_event = EvDelivery amqp_delivery | EvChannelClosed | EvCancelled

fun consume_loop :: "('d, 'm) protolib \<Rightarrow> consume_event list \<Rightarrow> outcome list \<times> bus_error option" where
  "consume_loop c [] = ([], None)"
| "consume_loop c (EvCancelled # evs) = ([], Some ConsumeCancelled)"
| "consume_loop c (EvChannelClosed # evs) = ([], Some ConsumeClosed)"
| "consume_loop c (EvDelivery d # evs) =
     (case consume_loop c evs of (outs, err) \<Rightarrow> (dispatch c d # outs, err))"

definition consume_request :: "bus_config \<Rightarrow> request" where
  "consume_request cfg = ReqConsume (queueName cfg) [] False False False False"

definition Consume :: "(request \<Rightarrow> string option) \<Rightarrow> bus_config \<Rightarrow> ('d, 'm) protolib \<Rightarrow> consume_event list \<Rightarrow>
    outcome list \<times> bus_error option" where
  "Consume answer cfg c evs =
     (if answer (consume_request cfg) \<noteq> None then ([], Some (ConsumeFailed (queueName cfg)))
      else consume_loop c evs)"

section \<open>Publishing\<close>

definition buildPublishing :: "bus_config \<Rightarrow> ('d, 'm) protolib \<Rightarrow> bytes option \<Rightarrow> string list \<Rightarrow> string \<Rightarrow> gdict \<Rightarrow>
    bus_error + string \<times> publishing" where
  "buildPublishing cfg c random chain selector data' =
     bindE (mapE (EncodeData selector) (Encode c selector data')) (\<lambda>inner.
     bindE (wrapControl c (chain @ [bc_agent cfg]) inner) (\<lambda>body.
     bindE (newID random) (\<lambda>id.
     Inr (selector @ ''.'' @ id, \<lparr>pub_persistent = True, pub_body = body\<rparr>))))"

definition Publish :: "(request \<Rightarrow> string option) \<Rightarrow> bus_config \<Rightarrow> ('d, 'm) protolib \<Rightarrow> bytes option \<Rightarrow> string list \<Rightarrow>
    string \<Rightarrow> gdict \<Rightarrow> request list \<times> bus_error option" where
  "Publish answer cfg c random chain selector data' =
     (case buildPublishing cfg c random chain selector data' of
        Inl e \<Rightarrow> ([], Some e)
      | Inr (key, msg) \<Rightarrow>
          (let r = ReqPublish (bc_exchange cfg) key False False msg
           in ([r], if answer r \<noteq> None then Some (PublishFailed key) else None)))"

end
