(* ===== verification/Bus_Properties.thy ===== *)
theory Bus_Properties
  imports Bus "HOL-Library.Sublist"
begin

text \<open>
  What the bus promises (\<open>internal/bus/bus.go\<close> and \<open>control.go\<close>): the envelope and the routing key read back
  as what was wrapped, a published message reaches the next agent's handler with this agent appended to its
  chain, undecodable messages are dropped, and the queue is set up in order.
\<close>

section \<open>The envelope\<close>

text \<open>The JSON form of the envelope, as the codec is given it, and as \<open>protojson\<close> may write the same message: a field
  without a value can be left out (\<open>EmitUnpopulated\<close> is off).\<close>

definition envelope_tree :: "string list \<Rightarrow> string \<Rightarrow> json" where
  "envelope_tree agents m =
     JObj [(''control'', JObj [(''agents'', JArr (map JStr agents))]), (''message'', JStr m)]"

definition control_forms :: "string list \<Rightarrow> (string \<times> json) list set" where
  "control_forms agents = {[(''control'', JObj [(''agents'', JArr (map JStr agents))])]} \<union>
     (if agents = [] then {[], [(''control'', JObj [])]} else {})"

definition message_forms :: "string \<Rightarrow> (string \<times> json) list set" where
  "message_forms m = {[(''message'', JStr m)]} \<union> (if m = [] then {[]} else {})"

definition envelope_forms :: "string list \<Rightarrow> string \<Rightarrow> json set" where
  "envelope_forms agents m = {JObj (c @ b) | c b. c \<in> control_forms agents \<and> b \<in> message_forms m}"

text \<open>The documented behaviour of the library on the envelope's message type: it is in the descriptor set, an
  envelope with UTF-8 agent names is accepted and can be marshalled, and its JSON form is one of those above.\<close>

definition control_schema :: "('d, 'm) protolib \<Rightarrow> bool" where
  "control_schema lib \<longleftrightarrow>
     (\<exists>md. find_descriptor lib (full_name controlSelector) = Some (MessageDesc md) \<and>
        (\<forall>agents inner. list_all valid_utf8 agents \<longrightarrow>
           (\<exists>msg wire js t. protojson_unmarshal lib md (bytes_of (json_text (envelope_tree agents (b64_encode inner)))) = Some msg \<and>
              proto_marshal lib msg = Some wire \<and> protojson_marshal lib msg = Some js \<and>
              json_parse (string_of js) = Some t \<and> t \<in> envelope_forms agents (b64_encode inner))))"

lemma control_less_message: "''control'' < (''message'' :: string)"
  by code_simp

lemma strings_to_json: "all_some (map to_json (map GStr ss)) = Some (map JStr ss)"
  by (induction ss) simp_all

lemma strings_of_json: "all_some (map of_json (map JStr ss)) = Some (map GStr ss)"
  by (induction ss) simp_all

lemma strings_of_strings [simp]: "strings_of (map GStr ss) = ss"
  by (induction ss) simp_all

lemma control_dict_json: "dict_json (Some (control_dict agents inner)) = Some (envelope_tree agents (b64_encode inner))"
  using control_less_message
  by (simp add: dict_json_def control_dict_def envelope_tree_def mput_all_def strings_to_json del: map_map)

lemma b64_encode_Nil [simp]: "b64_encode bs = [] \<longleftrightarrow> bs = []"
  using b64_encode_inject [of bs "[]"] by auto

lemma b64_decode_Nil [simp]: "b64_decode [] = Some []"
  using b64_decode_encode [of "[]"] by simp

lemma envelope_reads:
  assumes "t \<in> envelope_forms agents (b64_encode inner)"
  shows "\<exists>d. into_dict (Some []) t = Some d \<and> agentsFromDict d = agents \<and> innerFromDict d = Inr inner"
  using assms control_less_message
  by (auto simp: envelope_forms_def control_forms_def message_forms_def agentsFromDict_def innerFromDict_def
      mput_all_def strings_of_json b64_decode_encode simp del: map_map split: if_splits)

lemma unwrap_wrap_ok:
  assumes "wire_faithful lib" "control_schema lib" "list_all valid_utf8 agents"
  shows "\<exists>body. wrapControl lib agents inner = Inr body \<and> unwrapControl lib body = Inr (agents, inner)"
proof -
  obtain md msg wire js t where lib: "find_descriptor lib (full_name controlSelector) = Some (MessageDesc md)"
      "protojson_unmarshal lib md (bytes_of (json_text (envelope_tree agents (b64_encode inner)))) = Some msg"
      "proto_marshal lib msg = Some wire" "protojson_marshal lib msg = Some js" "json_parse (string_of js) = Some t"
      "t \<in> envelope_forms agents (b64_encode inner)"
    using assms(2,3) unfolding control_schema_def by blast
  obtain msg' where msg': "proto_unmarshal lib md wire = Some msg'" "protojson_marshal lib msg' = Some js"
    using assms(1) lib(2-4) unfolding wire_faithful_def by metis
  obtain d where d: "into_dict (Some []) t = Some d" "agentsFromDict d = agents" "innerFromDict d = Inr inner"
    using envelope_reads [OF lib(6)] by blast
  have "wrapControl lib agents inner = Inr wire"
    using lib(1-3) by (simp add: wrapControl_def Encode_def Message_def control_dict_json marshal_def)
  moreover have "unwrapControl lib wire = Inr (agents, inner)"
    using lib(1,5) msg' d by (simp add: unwrapControl_def Decode_def Message_def unmarshal_def)
  ultimately show ?thesis
    by blast
qed

text \<open>C27: unwrapping a wrapped envelope gives back the agents path and the inner bytes exactly, empty ones
  included.\<close>

theorem unwrap_wrap:
  assumes "wire_faithful lib" "control_schema lib" "list_all valid_utf8 agents"
  shows "\<exists>body. wrapControl lib agents inner = Inr body \<and> unwrapControl lib body = Inr (agents, inner)"
  using assms by (rule unwrap_wrap_ok)

section \<open>A concrete library\<close>

text \<open>A library whose messages are JSON trees and whose wire form is their text, with every selector present.\<close>

definition ex_ok :: "json \<Rightarrow> bool" where
  "ex_ok j \<longleftrightarrow> nums_ok j \<and> depth j \<le> maxNestingDepth \<and> clean j = j"

definition ex_read :: "bytes \<Rightarrow> json option" where
  "ex_read bs = (case json_parse (string_of bs) of None \<Rightarrow> None | Some j \<Rightarrow> if ex_ok j then Some j else None)"

definition ex_lib :: "(unit, json) protolib" where
  "ex_lib = \<lparr>find_descriptor = (\<lambda>name. Some (MessageDesc ())), proto_unmarshal = (\<lambda>_. ex_read),
     proto_marshal = (\<lambda>j. Some (bytes_of (json_text j))), protojson_marshal = (\<lambda>j. Some (bytes_of (json_text j))),
     protojson_unmarshal = (\<lambda>_. ex_read)\<rparr>"

lemma ex_read_text: "ex_ok j \<Longrightarrow> ex_read (bytes_of (json_text j)) = Some j"
  by (simp add: ex_read_def ex_ok_def parse_text)

lemma ex_lib_faithful: "wire_faithful ex_lib"
proof -
  have "ex_read (bytes_of (json_text msg)) = Some msg" if "ex_read js = Some msg" for js msg
    using that by (intro ex_read_text) (auto simp: ex_read_def split: option.splits if_splits)
  then show ?thesis
    by (simp add: wire_faithful_def ex_lib_def)
qed

lemma ascii_valid: "list_all (\<lambda>c. code c < 128) s \<Longrightarrow> sanitize s = s"
  by (intro sanitize_valid valid_ascii)

lemma b64_char_ascii: "n < 64 \<Longrightarrow> code (b64_char n) < 128"
  by (auto simp: b64_char_def of_char_of)

lemma b64_ascii: "list_all (\<lambda>c. code c < 128) (b64_encode bs)"
  by (induction bs rule: b64_encode.induct) (auto simp: Let_def b64_char_ascii)

lemma ex_lib_control: "control_schema ex_lib"
proof -
  have "ex_ok (envelope_tree agents (b64_encode inner))" if "list_all valid_utf8 agents" for agents inner
  proof -
    have "sanitize (b64_encode inner) = b64_encode inner" "sanitize ''control'' = ''control''"
      "sanitize ''agents'' = ''agents''" "sanitize ''message'' = ''message''"
      using b64_ascii by (auto intro!: ascii_valid)
    moreover have "map (clean \<circ> JStr) agents = map JStr agents"
      using that by (auto simp: list_all_iff sanitize_valid)
    moreover have "max_of (map (depth \<circ> JStr) agents) = 0"
      by (induction agents) simp_all
    ultimately show ?thesis
      by (simp add: ex_ok_def envelope_tree_def maxNestingDepth_def list_all_iff)
  qed
  moreover have "envelope_tree agents m \<in> envelope_forms agents m" for agents m
    unfolding envelope_tree_def envelope_forms_def
    by (rule CollectI, rule exI [of _ "[(''control'', JObj [(''agents'', JArr (map JStr agents))])]"],
        rule exI [of _ "[(''message'', JStr m)]"]) (simp add: control_forms_def message_forms_def)
  moreover have "json_parse (json_text t) = Some t" if "ex_ok t" for t
    using that by (simp add: ex_ok_def parse_text)
  ultimately show ?thesis
    unfolding control_schema_def
    by (intro exI [of _ "()"] conjI allI impI) (simp_all add: ex_lib_def ex_read_text)
qed

theorem unwrap_wrap_witness:
  "\<exists>body. wrapControl ex_lib [''agent/a'', ''agent/b''] [1, 2, 3] = Inr body \<and>
    unwrapControl ex_lib body = Inr ([''agent/a'', ''agent/b''], [1, 2, 3])"
proof (rule unwrap_wrap [OF ex_lib_faithful ex_lib_control])
  show "list_all valid_utf8 [''agent/a'', ''agent/b'']"
    by code_simp
qed

section \<open>Message ids\<close>

lemma version_nibble: "unat ((b AND 0x0f) OR 0x40 :: byte) div 16 = 4"
proof -
  have "drop_bit 4 ((b AND 0x0f) OR 0x40 :: byte) = 4"
    by (rule bit_word_eqI) (auto simp: bit_simps bit_numeral_rec less_Suc_eq eval_nat_numeral)
  then have "unat (((b AND 0x0f) OR 0x40 :: byte) div 16) = 4"
    by (simp add: drop_bit_eq_div)
  then show ?thesis
    by (simp add: unat_div_distrib)
qed

lemma variant_bits: "unat ((b AND 0x3f) OR 0x80 :: byte) div 64 = 2"
proof -
  have "drop_bit 6 ((b AND 0x3f) OR 0x80 :: byte) = 2"
    by (rule bit_word_eqI) (auto simp: bit_simps bit_numeral_rec less_Suc_eq eval_nat_numeral)
  then have "unat (((b AND 0x3f) OR 0x80 :: byte) div 64) = 2"
    by (simp add: drop_bit_eq_div)
  then show ?thesis
    by (simp add: unat_div_distrib)
qed

lemma div64_range: "n div 64 = 2 \<Longrightarrow> 128 \<le> n \<and> n < 192" for n :: nat
  using mult_div_mod_eq [of 64 n] mod_less_divisor [of 64 n] by linarith

lemma range_nibble: "128 \<le> n \<Longrightarrow> n < 192 \<Longrightarrow> n div 16 \<in> {8, 9, 10, 11}" for n :: nat
  by auto

lemma variant_nibble: "unat ((b AND 0x3f) OR 0x80 :: byte) div 16 \<in> {8, 9, 10, 11}"
  using div64_range [OF variant_bits] range_nibble by blast

lemma hex_prefix: "length a = length b \<Longrightarrow> hex_of a @ x = hex_of b @ y \<longleftrightarrow> a = b \<and> x = y"
  by (simp add: append_eq_append_conv)

lemma sixteen:
  assumes "length r = 16"
  obtains b0 b1 b2 b3 b4 b5 b6 b7 b8 b9 b10 b11 b12 b13 b14 b15
  where "r = [b0, b1, b2, b3, b4, b5, b6, b7, b8, b9, b10, b11, b12, b13, b14, b15]"
  using assms by (auto simp: eval_nat_numeral length_Suc_conv)

text \<open>C28: an id is a canonical version 4 UUID: 36 characters in five groups, the version digit 4 and a variant digit
  of 8, 9, a or b; and two calls give the same id only if the random bytes agree outside the six bits that are
  fixed.\<close>

theorem newID_is_uuid4:
  assumes "length r = 16" "newID (Some r) = Inr i"
  shows "length i = 36 \<and> map ((!) i) [8, 13, 18, 23] = ''----'' \<and> i ! 14 = CHR ''4'' \<and> i ! 19 \<in> set ''89ab'' \<and>
    (\<forall>s. length s = 16 \<and> newID (Some s) = Inr i \<longrightarrow> set_version s = set_version r)"
proof (intro conjI allI impI)
  obtain b0 b1 b2 b3 b4 b5 b6 b7 b8 b9 b10 b11 b12 b13 b14 b15
    where r: "r = [b0, b1, b2, b3, b4, b5, b6, b7, b8, b9, b10, b11, b12, b13, b14, b15]"
    using assms(1) by (rule sixteen)
  have i: "i = hex_of [b0, b1, b2, b3] @ ''-'' @ hex_of [b4, b5] @ ''-'' @ hex_of [(b6 AND 0x0f) OR 0x40, b7] @ ''-'' @
      hex_of [(b8 AND 0x3f) OR 0x80, b9] @ ''-'' @ hex_of [b10, b11, b12, b13, b14, b15]"
    using assms(2) by (simp add: r newID_def set_version_def slice_def Let_def eval_nat_numeral)
  show "length i = 36"
    by (simp add: i)
  show "map ((!) i) [8, 13, 18, 23] = ''----''"
    by (simp add: i hex_of_def hex_byte_def)
  have "i ! 14 = hex_char 4"
    using version_nibble [of b6] by (simp add: i hex_of_def hex_byte_def)
  then show "i ! 14 = CHR ''4''"
    by (simp only:) code_simp
  have "i ! 19 = hex_char (unat ((b8 AND 0x3f) OR 0x80) div 16)"
    by (simp add: i hex_of_def hex_byte_def)
  moreover have "hex_char 8 \<in> set ''89ab''" "hex_char 9 \<in> set ''89ab''" "hex_char 10 \<in> set ''89ab''"
      "hex_char 11 \<in> set ''89ab''"
    by code_simp+
  ultimately show "i ! 19 \<in> set ''89ab''"
    using variant_nibble [of b8] by (elim insertE emptyE) simp_all
  fix s
  assume s: "length s = 16 \<and> newID (Some s) = Inr i"
  have len: "length (set_version r) = 16" "length (set_version s) = 16"
    using assms(1) s by (simp_all add: set_version_def Let_def)
  have parts: "slice 0 4 x @ slice 4 6 x @ slice 6 8 x @ slice 8 10 x @ slice 10 16 x = x"
    if "length x = 16" for x :: bytes
    using that by (elim sixteen) (simp add: slice_def eval_nat_numeral)
  have "slice 0 4 (set_version s) = slice 0 4 (set_version r) \<and> slice 4 6 (set_version s) = slice 4 6 (set_version r) \<and>
      slice 6 8 (set_version s) = slice 6 8 (set_version r) \<and> slice 8 10 (set_version s) = slice 8 10 (set_version r) \<and>
      slice 10 16 (set_version s) = slice 10 16 (set_version r)"
  proof -
    have "newID (Some s) = newID (Some r)"
      using assms(2) s by simp
    then show ?thesis
      using len by (simp add: newID_def Let_def slice_def hex_prefix)
  qed
  then show "set_version s = set_version r"
    using parts [OF len(1)] parts [OF len(2)] by metis
qed

theorem newID_is_uuid4_witness:
  "length ''00010203-0405-4607-8809-0a0b0c0d0e0f'' = 36 \<and> ''00010203-0405-4607-8809-0a0b0c0d0e0f'' ! 14 = CHR ''4''"
proof -
  have "newID (Some [0, 1, 2, 3, 4, 5, 6, 7, 8, 9, 10, 11, 12, 13, 14, 15]) = Inr ''00010203-0405-4607-8809-0a0b0c0d0e0f''"
    by code_simp
  then show ?thesis
    using newID_is_uuid4 [of "[0, 1, 2, 3, 4, 5, 6, 7, 8, 9, 10, 11, 12, 13, 14, 15]"] by simp
qed

section \<open>From one agent to the next\<close>

lemma newID_some: "\<exists>i. newID (Some r) = Inr i"
  by (simp add: newID_def Let_def)

lemma published_arrives:
  assumes "wire_faithful lib" "control_schema lib" "list_all valid_utf8 (chain @ [bc_agent cfg])"
    and "Encode lib selector data' = Inr inner" "Decode lib selector inner = Inr seen"
    and "newID random = Inr i"
  shows "\<exists>key msg. buildPublishing cfg lib random chain selector data' = Inr (key, msg) \<and> pub_persistent msg \<and>
    dispatch lib \<lparr>ad_tag = tag, ad_routing_key = key, ad_headers = headers, ad_body = pub_body msg\<rparr> =
      Handed \<lparr>bd_selector = selector, bd_data = seen, bd_chain = chain @ [bc_agent cfg], bd_message_id = i,
        bd_headers = headers, bd_tag = tag\<rparr>"
proof -
  obtain body where body: "wrapControl lib (chain @ [bc_agent cfg]) inner = Inr body"
      "unwrapControl lib body = Inr (chain @ [bc_agent cfg], inner)"
    using unwrap_wrap_ok [OF assms(1-3)] by blast
  have "CHR ''.'' \<notin> set i"
    using assms(6) newID_no_dot by (cases random) (auto simp: newID_def)
  then show ?thesis
    using assms(4-6) body
    by (simp add: buildPublishing_def dispatch_def selector_of_key id_of_key Let_def)
qed

text \<open>C26: what one agent publishes is what the next agent's bus hands over. The message keeps its selector, its chain
  is the inbound chain with the publishing agent appended, its data is what the codec reads from the bytes it
  wrote, and its message id is the fresh id of the routing key.\<close>

theorem published_message_arrives:
  assumes "wire_faithful lib" "control_schema lib" "list_all valid_utf8 (chain @ [bc_agent cfg])"
    and "Encode lib selector data' = Inr inner" "Decode lib selector inner = Inr seen"
    and "newID random = Inr i"
  shows "\<exists>key msg. buildPublishing cfg lib random chain selector data' = Inr (key, msg) \<and> pub_persistent msg \<and>
    dispatch lib \<lparr>ad_tag = tag, ad_routing_key = key, ad_headers = headers, ad_body = pub_body msg\<rparr> =
      Handed \<lparr>bd_selector = selector, bd_data = seen, bd_chain = chain @ [bc_agent cfg], bd_message_id = i,
        bd_headers = headers, bd_tag = tag\<rparr>"
  using assms by (rule published_arrives)

definition ex_bus :: bus_config where
  "ex_bus = \<lparr>bc_url = [], bc_exchange = ''x'', bc_agent = ''agent/b'', bc_service = [], bc_inputs = [], bc_prefetch = 1\<rparr>"

definition ex_data :: gdict where
  "ex_data = Some [(''host'', GStr ''10.0.0.1'')]"

definition ex_random :: bytes where
  "ex_random = [0, 1, 2, 3, 4, 5, 6, 7, 8, 9, 10, 11, 12, 13, 14, 15]"

definition ex_wire_data :: bytes where
  "ex_wire_data = bytes_of (json_text (JObj [(''host'', JStr ''10.0.0.1'')]))"

lemma ex_tree_ok: "ex_ok (JObj [(''host'', JStr ''10.0.0.1'')])"
  by (simp add: ex_ok_def maxNestingDepth_def, code_simp)

lemma ex_encode: "Encode ex_lib ''v3.asset.ip'' ex_data = Inr ex_wire_data"
  using ex_read_text [OF ex_tree_ok] by (simp add: Encode_def Message_def ex_lib_def dict_json_def marshal_def ex_data_def ex_wire_data_def)

lemma ex_decode: "Decode ex_lib ''v3.asset.ip'' ex_wire_data = Inr ex_data"
  using ex_read_text [OF ex_tree_ok] ex_tree_ok
  by (simp add: Decode_def Message_def ex_lib_def unmarshal_def parse_text ex_ok_def mput_all_def ex_data_def ex_wire_data_def
      del: json_text.simps clean.simps)

lemma ex_newID: "newID (Some ex_random) = Inr ''00010203-0405-4607-8809-0a0b0c0d0e0f''"
  by code_simp

lemma ex_agents_valid: "list_all valid_utf8 ([''agent/a''] @ [bc_agent ex_bus])"
  by code_simp

theorem published_message_arrives_witness:
  "\<exists>key msg. buildPublishing ex_bus ex_lib (Some ex_random) [''agent/a''] ''v3.asset.ip'' ex_data = Inr (key, msg) \<and> pub_persistent msg \<and>
    dispatch ex_lib \<lparr>ad_tag = 4, ad_routing_key = key, ad_headers = None, ad_body = pub_body msg\<rparr> =
      Handed \<lparr>bd_selector = ''v3.asset.ip'', bd_data = ex_data, bd_chain = [''agent/a''] @ [bc_agent ex_bus],
        bd_message_id = ''00010203-0405-4607-8809-0a0b0c0d0e0f'', bd_headers = None, bd_tag = 4\<rparr>"
  by (rule published_message_arrives [OF ex_lib_faithful ex_lib_control ex_agents_valid ex_encode ex_decode ex_newID])

section \<open>Consuming and setting up\<close>

fun before_stop :: "consume_event list \<Rightarrow> amqp_delivery list" where
  "before_stop (EvDelivery d # evs) = d # before_stop evs"
| "before_stop _ = []"

fun stop_reason :: "consume_event list \<Rightarrow> bus_error option" where
  "stop_reason [] = None"
| "stop_reason (EvDelivery d # evs) = stop_reason evs"
| "stop_reason (EvChannelClosed # evs) = Some ConsumeClosed"
| "stop_reason (EvCancelled # evs) = Some ConsumeCancelled"

definition decodes :: "('d, 'm) protolib \<Rightarrow> amqp_delivery \<Rightarrow> bool" where
  "decodes c d \<longleftrightarrow> (\<exists>agents inner data'. unwrapControl c (ad_body d) = Inr (agents, inner) \<and>
     Decode c (selectorFromRoutingKey (ad_routing_key d)) inner = Inr data')"

text \<open>What becomes of one delivery: nacked alone and without requeue, or handed over with its own tag.\<close>

definition meets :: "('d, 'm) protolib \<Rightarrow> amqp_delivery \<Rightarrow> outcome \<Rightarrow> bool" where
  "meets c d out \<longleftrightarrow>
     (if decodes c d then
        (\<exists>b. out = Handed b \<and> bd_tag b = ad_tag d \<and> bd_headers b = ad_headers d \<and>
           bd_selector b = selectorFromRoutingKey (ad_routing_key d))
      else out = Dropped (ReqNack (ad_tag d) False False))"

lemma dispatch_meets: "meets c d (dispatch c d)"
  by (auto simp: meets_def decodes_def dispatch_def nack_request_def Let_def split: sum.split)

text \<open>The consume loop meets every delivery that arrives before the channel closes or the run is cancelled, in
  order and once: it hands it over, or, when the envelope or the inner message does not decode, nacks it alone
  and without requeue. It ends with the reason that stopped it.\<close>

lemma consume_meets_every_delivery:
  "list_all2 (meets c) (before_stop evs) (fst (consume_loop c evs)) \<and>
   snd (consume_loop c evs) = stop_reason evs"
  by (induction evs rule: stop_reason.induct) (auto simp: dispatch_meets split: prod.split)

lemma run_requests_prefix: "prefix (fst (run_requests answer rs)) (map fst rs)"
proof (induction rs)
  case (Cons r rs)
  then show ?case
    by (cases r) (auto split: option.split prod.split)
qed simp

lemma run_requests_none: "snd (run_requests answer rs) = None \<longleftrightarrow> (\<forall>r \<in> set (map fst rs). answer r = None)"
proof (induction rs)
  case (Cons r rs)
  then show ?case
    by (cases r) (auto split: option.split prod.split)
qed simp

lemma run_requests_stops:
  "case snd (run_requests answer rs) of
     None \<Rightarrow> fst (run_requests answer rs) = map fst rs \<and> list_all (\<lambda>r. answer (fst r) = None) rs
   | Some e \<Rightarrow> \<exists>k. k < length rs \<and> fst (run_requests answer rs) = map fst (take (Suc k) rs) \<and>
       list_all (\<lambda>r. answer (fst r) = None) (take k rs) \<and> answer (fst (rs ! k)) \<noteq> None \<and> e = snd (rs ! k)"
proof (induction rs)
  case (Cons re rs)
  obtain r e where re: "re = (r, e)"
    by fastforce
  obtain made err where run: "run_requests answer rs = (made, err)"
    by fastforce
  show ?case
  proof (cases "answer r")
    case (Some x)
    then show ?thesis
      by (auto simp: re intro: exI [of _ 0])
  next
    case None
    then show ?thesis
    proof (cases err)
      case (Some e')
      then obtain k where "k < length rs" "made = map fst (take (Suc k) rs)"
          "list_all (\<lambda>r. answer (fst r) = None) (take k rs)" "answer (fst (rs ! k)) \<noteq> None" "e' = snd (rs ! k)"
        using Cons.IH by (auto simp: run)
      then show ?thesis
        using None Some by (simp add: re run) (intro exI [of _ "Suc k"], simp add: None)
    qed (use Cons.IH None in \<open>simp add: re run\<close>)
  qed
qed simp

text \<open>C29: setting up has one list of requests, the exchange, the queue, the prefetch window (the configured one, or one
  when that is not positive) and one binding per input of the agent's queue (or of the service name that overrides
  it) with the suffix that matches the message ids, each with the error it is reported as. When all succeed, all
  were made, in order. When one fails, the requests made are those up to and including it, all before it succeeded,
  none after it was made, and the error returned is its own.\<close>

theorem setup_in_order:
  "let rs =
     [(ReqExchangeDeclare (bc_exchange cfg) ''topic'' False False False False exchange_args, DeclareExchange (bc_exchange cfg)),
      (ReqQueueDeclare (queueName cfg) True False False False, DeclareQueue (queueName cfg)),
      (ReqQos (max 1 (bc_prefetch cfg)) 0 False, SetQos)] @
     map (\<lambda>sel. (ReqQueueBind (queueName cfg) (sel @ ''.#'') (bc_exchange cfg) False, BindInput (sel @ ''.#'') (queueName cfg)))
       (bc_inputs cfg)
   in case setup_bus answer cfg of
        (made, None) \<Rightarrow> made = map fst rs \<and> list_all (\<lambda>r. answer (fst r) = None) rs
      | (made, Some e) \<Rightarrow> \<exists>k. k < length rs \<and> made = map fst (take (Suc k) rs) \<and>
          list_all (\<lambda>r. answer (fst r) = None) (take k rs) \<and> answer (fst (rs ! k)) \<noteq> None \<and> e = snd (rs ! k)"
proof -
  have reqs: "setup_requests cfg =
     [(ReqExchangeDeclare (bc_exchange cfg) ''topic'' False False False False exchange_args, DeclareExchange (bc_exchange cfg)),
      (ReqQueueDeclare (queueName cfg) True False False False, DeclareQueue (queueName cfg)),
      (ReqQos (max 1 (bc_prefetch cfg)) 0 False, SetQos)] @
     map (\<lambda>sel. (ReqQueueBind (queueName cfg) (sel @ ''.#'') (bc_exchange cfg) False, BindInput (sel @ ''.#'') (queueName cfg)))
       (bc_inputs cfg)"
    by (simp add: setup_requests_def clamp_prefetch_def Let_def)
  show ?thesis
    using run_requests_stops [of answer "setup_requests cfg"] unfolding Let_def reqs [symmetric] setup_bus_def
    by (auto split: prod.split option.splits)
qed

text \<open>C30: a \<open>Connect\<close> that fails leaves nothing open: when the dial succeeded the connection is closed, and when the
  channel was opened it is closed too, before the connection.\<close>

theorem connect_cleans_up:
  assumes "connect answer cfg = (reqs, Some e)" "e \<noteq> DialFailed"
  shows "last reqs = ReqCloseConn \<and> (e = OpenChannel \<or> drop (length reqs - 2) reqs = [ReqCloseChannel, ReqCloseConn])"
proof -
  have "e \<noteq> OpenChannel \<Longrightarrow> answer ReqChannel = None"
    using assms by (auto simp: connect_def split: if_splits prod.splits)
  then show ?thesis
    using assms by (auto simp: connect_def close_bus_def split: if_splits prod.splits)
qed

theorem connect_cleans_up_witness:
  "last (fst (connect (\<lambda>r. if r = ReqQos 2 0 False then Some ''refused'' else None)
      \<lparr>bc_url = [], bc_exchange = ''x'', bc_agent = ''a'', bc_service = [], bc_inputs = [''v3.asset.ip''], bc_prefetch = 2\<rparr>)) = ReqCloseConn"
proof -
  have "connect (\<lambda>r. if r = ReqQos 2 0 False then Some ''refused'' else None)
      \<lparr>bc_url = [], bc_exchange = ''x'', bc_agent = ''a'', bc_service = [], bc_inputs = [''v3.asset.ip''], bc_prefetch = 2\<rparr> =
    ([ReqDial [], ReqChannel, ReqExchangeDeclare ''x'' ''topic'' False False False False exchange_args,
      ReqQueueDeclare ''a_queue'' True False False False, ReqQos 2 0 False, ReqCloseChannel, ReqCloseConn], Some SetQos)"
    by (simp add: connect_def setup_bus_def setup_requests_def queueName_def clamp_prefetch_def close_bus_def)
  then show ?thesis
    using connect_cleans_up by fastforce
qed

end
