(* ===== verification/Data_Typing.thy ===== *)
theory Data_Typing
  imports Bus_Properties Note_Wire_Properties
begin

text \<open>
  The dynamic type of the data that passes through the engine: what the codec decodes from the bus and what the
  reader decodes from a handler (\<open>internal/codec/codec.go\<close>, \<open>internal/note/wire.go\<close>) is a JSON value, and every
  JSON value can be marshalled again.
\<close>

text \<open>JSON values as \<open>encoding/json\<close> stores them: nil, booleans, strings, finite floats, and slices and maps of them.\<close>

fun json_typed :: "goval \<Rightarrow> bool" where
  "json_typed GNil \<longleftrightarrow> True"
| "json_typed (GBool b) \<longleftrightarrow> True"
| "json_typed (GStr s) \<longleftrightarrow> True"
| "json_typed (GFloat w) \<longleftrightarrow> unat w mod sign_bit < inf_bits"
| "json_typed (GSlice vs) \<longleftrightarrow> list_all json_typed vs"
| "json_typed (GMap m) \<longleftrightarrow> mwf m \<and> list_all (\<lambda>(k, v). json_typed v) m"
| "json_typed _ \<longleftrightarrow> False"

definition dict_typed :: "gdict \<Rightarrow> bool" where
  "dict_typed d = (case d of None \<Rightarrow> True | Some m \<Rightarrow> json_typed (GMap m))"

lemma all_some_list_all:
  assumes "all_some (map f xs) = Some ys" "\<And>x y. x \<in> set xs \<Longrightarrow> f x = Some y \<Longrightarrow> P y"
  shows "list_all P ys"
proof -
  have "map f xs = map Some ys"
    using assms(1) by (simp add: all_some_map)
  then have "Some ` set ys = f ` set xs"
    by (metis set_map)
  then have "\<exists>x \<in> set xs. f x = Some y" if "y \<in> set ys" for y
    using that by (metis (no_types, lifting) image_iff)
  then show ?thesis
    using assms(2) by (auto simp: list_all_iff)
qed

lemma all_some_defined: "list_all (\<lambda>x. f x \<noteq> None) xs \<Longrightarrow> \<exists>ys. all_some (map f xs) = Some ys"
  by (induction xs) auto

lemma parse_float_finite:
  assumes "parse_float s = Some w"
  shows "unat w mod sign_bit < inf_bits"
proof -
  obtain bits n where bits: "bits < inf_bits" "n = bits \<or> n = bits + sign_bit" "w = word_of_nat n"
    using assms by (auto simp: parse_float_def Let_def not_le simp del: of_nat_add split: prod.splits if_splits)
  have "n < 2 ^ 64"
    using bits(1,2) by (auto simp: inf_bits_def sign_bit_def)
  then have "unat w = n"
    unfolding bits(3) by (simp add: unsigned_of_nat take_bit_nat_eq_self)
  then show ?thesis
    using bits(1,2) by (auto simp: inf_bits_def sign_bit_def)
qed

lemma set_mput: "x \<in> set (mput k v m) \<Longrightarrow> x = (k, v) \<or> x \<in> set m"
  by (induction k v m rule: mput.induct) (auto split: if_splits)

lemma set_mput_all: "x \<in> set (mput_all kvs m) \<Longrightarrow> x \<in> set kvs \<or> x \<in> set m"
  unfolding mput_all_def by (induction kvs arbitrary: m) (auto dest!: set_mput)

lemma typed_mput_all:
  assumes "list_all (\<lambda>(k, v). json_typed v) kvs" "json_typed (GMap m)"
  shows "json_typed (GMap (mput_all kvs m))"
  using assms set_mput_all [of _ kvs m] by (fastforce simp: list_all_iff)

lemma members_typed:
  assumes "all_some (map (\<lambda>(k, v). map_option (Pair k) (of_json v)) ms) = Some kvs"
    and "\<And>k v x. (k, v) \<in> set ms \<Longrightarrow> of_json v = Some x \<Longrightarrow> json_typed x"
  shows "list_all (\<lambda>(k, v). json_typed v) kvs"
  by (rule all_some_list_all [OF assms(1)]) (use assms(2) in fastforce)

lemma of_json_typed: "of_json j = Some v \<Longrightarrow> json_typed v"
proof (induction j arbitrary: v)
  case (JNum s)
  then show ?case
    by (auto simp: parse_float_finite)
next
  case (JArr vs)
  then show ?case
    using all_some_list_all [of of_json vs _ json_typed] by auto
next
  case (JObj ms)
  then obtain kvs where kvs: "all_some (map (\<lambda>(k, v). map_option (Pair k) (of_json v)) ms) = Some kvs" "v = GMap (mput_all kvs [])"
    by auto
  have "list_all (\<lambda>(k, v). json_typed v) kvs"
    by (rule members_typed [OF kvs(1)]) (use JObj.IH in force)
  then show ?case
    unfolding kvs(2) by (rule typed_mput_all) simp
qed auto

lemma into_dict_typed:
  assumes "into_dict d j = Some d'" "dict_typed d"
  shows "dict_typed d'"
proof (cases j)
  case (JObj ms)
  then obtain kvs where kvs: "all_some (map (\<lambda>(k, v). map_option (Pair k) (of_json v)) ms) = Some kvs"
      "d' = Some (mput_all kvs (case d of None \<Rightarrow> [] | Some m \<Rightarrow> m))"
    using assms(1) by auto
  have "list_all (\<lambda>(k, v). json_typed v) kvs"
    by (rule members_typed [OF kvs(1)]) (rule of_json_typed)
  moreover have "json_typed (GMap (case d of None \<Rightarrow> [] | Some m \<Rightarrow> m))"
    using assms(2) by (simp add: dict_typed_def split: option.splits)
  ultimately show ?thesis
    unfolding kvs(2) dict_typed_def option.case by (rule typed_mput_all)
qed (use assms in \<open>auto simp: dict_typed_def\<close>)

lemma typed_to_json: "json_typed v \<Longrightarrow> to_json v \<noteq> None"
proof (induction v)
  case (GSlice vs)
  then have "\<exists>js. all_some (map to_json vs) = Some js"
    by (intro all_some_defined) (auto simp: list_all_iff)
  then show ?case
    by auto
next
  case (GMap m)
  then have "\<exists>js. all_some (map (\<lambda>(k, v). map_option (Pair k) (to_json v)) m) = Some js"
    by (intro all_some_defined) (fastforce simp: list_all_iff)
  then show ?case
    by auto
next
  case (GFloat w)
  then show ?case
    by (simp add: format_float_def Let_def)
qed auto

lemma typed_dict_json: "dict_typed d \<Longrightarrow> \<exists>j. dict_json d = Some j"
  using typed_to_json [of "GMap (the d)"] by (auto simp: dict_typed_def dict_json_def split: option.splits)

lemma decode_typed: "Decode c selector wire = Inr d \<Longrightarrow> dict_typed d"
  by (auto simp: Decode_Inr unmarshal_def dict_typed_def [of "Some []"] split: Option.bind_splits intro: into_dict_typed)

lemma emit_members_typed:
  "into_members emit_field e ms = Some e' \<Longrightarrow> dict_typed (em_data e) \<Longrightarrow> dict_typed (em_data e')"
proof (induction ms arbitrary: e)
  case (Cons m ms)
  obtain k v where m: "m = (k, v)"
    by (cases m)
  obtain e1 where e1: "emit_field e k v = Some e1" "into_members emit_field e1 ms = Some e'"
    using Cons.prems(1) by (auto simp: m split: Option.bind_splits)
  have "dict_typed (em_data e1)"
    using e1(1) Cons.prems(2) into_dict_typed by (fastforce simp: emit_field_def split: if_splits)
  then show ?case
    by (rule Cons.IH [OF e1(2)])
qed simp

lemma read_emit_typed:
  assumes "Read bs = Inr (HEmit e, rest)"
  shows "dict_typed (em_data e)"
proof -
  obtain body where "unmarshal (into_struct emit_field zero_emit) body = Some e"
    using assms by (auto simp: Read_def note_of_body_def err_iffs split: if_splits)
  then obtain j where j: "into_struct emit_field zero_emit j = Some e"
    by (auto simp: unmarshal_def split: Option.bind_splits)
  have zero: "dict_typed (em_data zero_emit)"
    by (simp add: zero_emit_def dict_typed_def)
  show ?thesis
    using j zero emit_members_typed by (cases j) auto
qed

text \<open>C37: the data of every message the codec decodes from the bus, and of every emit the reader decodes from a handler,
  is a well-formed map of JSON values, or nil, and so it can always be marshalled again: neither a deliver note nor
  an encoding fails on the data it is given.\<close>

theorem engine_data_is_json:
  assumes "Decode c selector wire = Inr d \<or> Read bs = Inr (HEmit e, rest) \<and> d = em_data e"
  shows "dict_typed d \<and> (\<exists>j. dict_json d = Some j \<and> (\<exists>body. marshal (Some j) = Some body))"
proof -
  have "dict_typed d"
    using assms decode_typed read_emit_typed by blast
  then show ?thesis
    using typed_dict_json by (auto simp: marshal_def)
qed

theorem engine_data_is_json_witness:
  "dict_typed (Some [(''open'', GBool True), (''ports'', GSlice [GStr ''80'', GStr ''443''])]) \<and>
    (\<exists>j. dict_json (Some [(''open'', GBool True), (''ports'', GSlice [GStr ''80'', GStr ''443''])]) = Some j \<and>
      (\<exists>body. marshal (Some j) = Some body))"
proof -
  have "\<exists>e. Read ex_frame = Inr (HEmit e, []) \<and>
      em_data e = Some [(''open'', GBool True), (''ports'', GSlice [GStr ''80'', GStr ''443''])]"
    using ex_note_read by (simp add: ex_note_def)
  then show ?thesis
    using engine_data_is_json by metis
qed

end
