(* ===== verification/Worker_Spawn.thy ===== *)
theory Worker_Spawn
  imports Worker_Machine Note_Wire
begin

text \<open>
  Starting a handler process, \<open>spawn\<close> of \<open>internal/worker/worker.go\<close>, as the sequence of calls it makes on \<open>os/exec\<close> and on
  the pipes. What they answer comes from outside: \<open>os\<close> says of each call whether it succeeds. The step relation of
  \<open>Worker_Machine\<close> takes \<open>spawn\<close> as one step that succeeds or fails; here are its parts, and that a failure leaves
  no process and no pipe behind.
\<close>

section \<open>The calls\<close>

text \<open>\<open>StdinPipe\<close>, \<open>StdoutPipe\<close>, \<open>Start\<close> with the command and its environment, a write to stdin, and the clean-up calls:
  \<open>Close\<close> of stdin, \<open>io.Copy\<close> from stdout to \<open>io.Discard\<close>, and \<open>Wait\<close>.\<close>

datatype os_call =
    StdinPipe
  | StdoutPipe
  | StartProcess "string list" "string list"
  | WriteStdin bytes
  | CloseStdin
  | DrainStdout
  | WaitProcess

datatype spawn_error =
    EmptyCommand
  | StdinPipeFailed
  | StdoutPipeFailed
  | StartFailed
  | WriteInitFailed "frame_error option"

text \<open>\<open>nw.Init\<close>: the note is written as one frame; it fails before any write when it cannot be framed.\<close>

definition send_init :: "(os_call \<Rightarrow> bool) \<Rightarrow> config \<Rightarrow> os_call list \<times> spawn_error option" where
  "send_init os cfg =
     (case write_init (init_of cfg) of
        Inl e \<Rightarrow> ([], Some (WriteInitFailed (Some e)))
      | Inr frame \<Rightarrow> ([WriteStdin frame], if os (WriteStdin frame) then None else Some (WriteInitFailed None)))"

definition spawn :: "(os_call \<Rightarrow> bool) \<Rightarrow> string list \<Rightarrow> config \<Rightarrow> os_call list \<times> (spawn_error + proc)" where
  "spawn os environ cfg =
     (let start = StartProcess (c_command cfg) (environ @ c_env cfg)
      in if c_command cfg = [] then ([], Inl EmptyCommand)
         else if \<not> os StdinPipe then ([StdinPipe], Inl StdinPipeFailed)
         else if \<not> os StdoutPipe then ([StdinPipe, StdoutPipe, CloseStdin], Inl StdoutPipeFailed)
         else if \<not> os start then ([StdinPipe, StdoutPipe, start, CloseStdin], Inl StartFailed)
         else (case send_init os cfg of
             (calls, Some e) \<Rightarrow>
               ([StdinPipe, StdoutPipe, start] @ calls @ [CloseStdin, DrainStdout, WaitProcess], Inl e)
           | (calls, None) \<Rightarrow> ([StdinPipe, StdoutPipe, start] @ calls, Inr new_proc)))"

section \<open>What is open\<close>

text \<open>The engine's end of the stdin pipe, its end of the stdout pipe, and a process not yet waited for. A failed \<open>Start\<close> closes
  the stdout pipe, and \<open>Wait\<close> does so too, as \<open>os/exec\<close> documents. \<open>None\<close> is a call out of place: a pipe made twice, a write
  to a closed stdin, a \<open>Wait\<close> without a process.\<close>

record os_state =
  os_stdin :: bool
  os_stdout :: bool
  os_child :: bool

definition nothing_open :: os_state where
  "nothing_open = \<lparr>os_stdin = False, os_stdout = False, os_child = False\<rparr>"

fun os_after :: "(os_call \<Rightarrow> bool) \<Rightarrow> os_call \<Rightarrow> os_state \<Rightarrow> os_state option" where
  "os_after os StdinPipe st = (if os_stdin st then None else Some (st\<lparr>os_stdin := os StdinPipe\<rparr>))"
| "os_after os StdoutPipe st = (if os_stdout st then None else Some (st\<lparr>os_stdout := os StdoutPipe\<rparr>))"
| "os_after os (StartProcess cmd env) st =
     (if os_child st then None
      else if os (StartProcess cmd env) then Some (st\<lparr>os_child := True\<rparr>) else Some (st\<lparr>os_stdout := False\<rparr>))"
| "os_after os (WriteStdin bs) st = (if os_stdin st \<and> os_child st then Some st else None)"
| "os_after os CloseStdin st = (if os_stdin st then Some (st\<lparr>os_stdin := False\<rparr>) else None)"
| "os_after os DrainStdout st = (if os_stdout st then Some st else None)"
| "os_after os WaitProcess st = (if os_child st then Some (st\<lparr>os_child := False, os_stdout := False\<rparr>) else None)"

fun os_run :: "(os_call \<Rightarrow> bool) \<Rightarrow> os_call list \<Rightarrow> os_state \<Rightarrow> os_state option" where
  "os_run os [] st = Some st"
| "os_run os (call # calls) st = Option.bind (os_after os call st) (os_run os calls)"

lemma os_run_append: "os_run os (xs @ ys) st = Option.bind (os_run os xs st) (os_run os ys)"
  by (induction xs arbitrary: st) (auto split: Option.bind_splits)

fun stdin_writes :: "os_call list \<Rightarrow> bytes" where
  "stdin_writes [] = []"
| "stdin_writes (WriteStdin bs # calls) = bs @ stdin_writes calls"
| "stdin_writes (call # calls) = stdin_writes calls"

section \<open>The theorem\<close>

lemma send_init_run:
  "os_run os (fst (send_init os cfg)) \<lparr>os_stdin = True, os_stdout = True, os_child = True\<rparr> =
    Some \<lparr>os_stdin = True, os_stdout = True, os_child = True\<rparr>"
  by (simp add: send_init_def split: sum.split)

text \<open>C32: \<open>spawn\<close> makes no call out of place, and when it fails, at whichever call, it has closed stdin and stdout and waited
  for the process it had started. When it succeeds the process runs with both pipes open, its queue is empty, and its
  stdin holds the frame of the one init note.\<close>

theorem spawn_leaves_nothing:
  "os_run os (fst (spawn os environ cfg)) nothing_open =
      Some (case snd (spawn os environ cfg) of
        Inl e \<Rightarrow> nothing_open
      | Inr p \<Rightarrow> \<lparr>os_stdin = True, os_stdout = True, os_child = True\<rparr>) \<and>
    (case snd (spawn os environ cfg) of
       Inl e \<Rightarrow> True
     | Inr p \<Rightarrow> p = new_proc \<and> write_init (init_of cfg) = Inr (stdin_writes (fst (spawn os environ cfg))))"
proof -
  let ?start = "StartProcess (c_command cfg) (environ @ c_env cfg)"
  let ?up = "\<lparr>os_stdin = True, os_stdout = True, os_child = True\<rparr>"
  show ?thesis
  proof (cases "c_command cfg \<noteq> [] \<and> os StdinPipe \<and> os StdoutPipe \<and> os ?start")
    case False
    then show ?thesis
      by (auto simp: spawn_def nothing_open_def Let_def)
  next
    case True
    obtain calls err where init: "send_init os cfg = (calls, err)"
      by fastforce
    have run: "os_run os calls ?up = Some ?up"
      using send_init_run [of os cfg] init by simp
    have started: "os_run os [StdinPipe, StdoutPipe, ?start] nothing_open = Some ?up"
      using True by (simp add: nothing_open_def)
    show ?thesis
    proof (cases err)
      case (Some e)
      then have "spawn os environ cfg =
          ([StdinPipe, StdoutPipe, ?start] @ calls @ [CloseStdin, DrainStdout, WaitProcess], Inl e)"
        using True init by (simp add: spawn_def Let_def)
      then show ?thesis
        using run started by (simp add: os_run_append nothing_open_def del: append.simps)
    next
      case None
      then have "spawn os environ cfg = ([StdinPipe, StdoutPipe, ?start] @ calls, Inr new_proc)"
        using True init by (simp add: spawn_def Let_def)
      moreover have "write_init (init_of cfg) = Inr (stdin_writes calls)"
        using init None by (auto simp: send_init_def split: sum.splits if_splits)
      ultimately show ?thesis
        using run True by (simp add: nothing_open_def)
    qed
  qed
qed

text \<open>\<open>spawn\<close> and the step relation: where it succeeds, \<open>spawn_ok\<close> can be taken, which adds the process it returns.\<close>

lemma spawn_is_step:
  assumes "snd (spawn os environ (w_cfg (s_w s))) = Inr p" "s_sup s = SSpawn"
  shows "wstep s (spawned s) \<and> s_procs (spawned s) = s_procs s @ [p]"
proof -
  have "can_spawn (s_w s)" "p = new_proc"
    using assms(1) by (auto simp: spawn_def can_spawn_def Let_def split: if_splits option.splits prod.splits)
  then show ?thesis
    using spawn_ok [OF assms(2)] by (simp add: spawned_def)
qed

end
