(* ===== verification/Admission.thy ===== *)
theory Admission
  imports Go_Strings
begin

text \<open>
  Flow-control admission, \<open>internal/engine/admit.go\<close>: the stateless cyclic, depth and accepted-sender
  checks on the control chain of an inbound message. Lengths and counts are converted to \<open>uint32\<close>
  before they are compared with the limits, as in the code.
\<close>

section \<open>The code\<close>

fun count :: "string list \<Rightarrow> string \<Rightarrow> nat" where
  "count [] v = 0"
| "count (x # s) v = (if x = v then Suc (count s v) else count s v)"

fun contains :: "string list \<Rightarrow> string \<Rightarrow> bool" where
  "contains [] v = False"
| "contains (x # s) v = (if x = v then True else contains s v)"

definition to_uint32 :: "nat \<Rightarrow> uint32" where
  "to_uint32 n = word_of_nat n"

definition admit :: "string list \<Rightarrow> string \<Rightarrow> uint32 \<Rightarrow> uint32 \<Rightarrow> string list \<Rightarrow> bool \<times> string" where
  "admit chain agent cyclic depth accepted =
     (if cyclic \<noteq> 0 \<and> cyclic \<le> to_uint32 (count chain agent) then
        (False, ''cyclic limit '' @ dec_of_nat (unat cyclic) @ '' reached for '' @ agent)
      else if depth \<noteq> 0 \<and> depth \<le> to_uint32 (length chain) then
        (False, ''depth limit '' @ dec_of_nat (unat depth) @ '' reached (chain length ''
                @ dec_of_nat (length chain) @ '')'')
      else if 0 < length chain \<and> 0 < length accepted \<and> \<not> contains accepted (last chain) then
        (False, ''sender '' @ last chain @ '' not in accepted agents'')
      else (True, []))"

section \<open>What it decides\<close>

text \<open>The checks over unbounded numbers, the way the comment of \<open>admit\<close> states them.\<close>

definition admissible :: "string list \<Rightarrow> string \<Rightarrow> nat \<Rightarrow> nat \<Rightarrow> string list \<Rightarrow> bool" where
  "admissible chain agent cyclic depth accepted \<longleftrightarrow>
     (cyclic = 0 \<or> count_list chain agent < cyclic) \<and>
     (depth = 0 \<or> length chain < depth) \<and>
     (chain = [] \<or> accepted = [] \<or> last chain \<in> set accepted)"

lemma count_eq [simp]: "count s v = count_list s v"
  by (induction s) auto

lemma contains_iff [simp]: "contains s v \<longleftrightarrow> v \<in> set s"
  by (induction s) auto

lemma unat_to_uint32: "unat (to_uint32 n) = n mod 2 ^ 32"
  by (simp add: to_uint32_def unsigned_of_nat take_bit_eq_mod)

lemma limit_reached: "lim \<le> to_uint32 n \<longleftrightarrow> unat lim \<le> n mod 2 ^ 32"
  by (simp add: word_le_nat_alt unat_to_uint32)

lemma limit_reached_small: "n < 2 ^ 32 \<Longrightarrow> lim \<le> to_uint32 n \<longleftrightarrow> unat lim \<le> n"
  by (simp add: limit_reached)

lemma count_le_length: "count_list xs x \<le> length xs"
  by (induction xs) auto

lemma unat_uint32_less: "unat (d :: uint32) < 2 ^ 32"
  by (rule order_less_le_trans [OF unsigned_less]) simp

lemma count_small: "length chain < 2 ^ 32 \<Longrightarrow> count_list chain agent < 2 ^ 32"
  using count_le_length [of chain agent] by linarith

text \<open>The reason a message is rejected for, with the numbers over the naturals: the first check that fails.\<close>

definition rejection :: "string list \<Rightarrow> string \<Rightarrow> nat \<Rightarrow> nat \<Rightarrow> string list \<Rightarrow> string" where
  "rejection chain agent cyclic depth accepted =
     (if cyclic \<noteq> 0 \<and> cyclic \<le> count_list chain agent then
        ''cyclic limit '' @ dec_of_nat cyclic @ '' reached for '' @ agent
      else if depth \<noteq> 0 \<and> depth \<le> length chain then
        ''depth limit '' @ dec_of_nat depth @ '' reached (chain length '' @ dec_of_nat (length chain) @ '')''
      else ''sender '' @ last chain @ '' not in accepted agents'')"

lemma admit_on_nats:
  assumes "length chain < 2 ^ 32"
  shows "admit chain agent cyclic depth accepted =
    (if admissible chain agent (unat cyclic) (unat depth) accepted then (True, [])
     else (False, rejection chain agent (unat cyclic) (unat depth) accepted))"
  using assms count_small [OF assms, of agent]
  by (auto simp: admit_def admissible_def rejection_def limit_reached_small unat_eq_0 not_le)

text \<open>C13: \<open>admit\<close> decides what its comment says, for every chain shorter than 2^32: a message is admitted exactly
  when the agent appears in the chain fewer times than the cyclic limit, the chain is shorter than the depth
  limit, and its last sender is accepted, a zero limit, an empty chain and an empty accepted list each switching
  their check off; a rejected one is given the reason of the first check that fails.\<close>

theorem admit_meets_spec:
  assumes "length chain < 2 ^ 32"
  shows "fst (admit chain agent cyclic depth accepted) =
      ((cyclic = 0 \<or> count_list chain agent < unat cyclic) \<and> (depth = 0 \<or> length chain < unat depth) \<and>
       (chain = [] \<or> accepted = [] \<or> last chain \<in> set accepted)) \<and>
    snd (admit chain agent cyclic depth accepted) =
      (if fst (admit chain agent cyclic depth accepted) then []
       else rejection chain agent (unat cyclic) (unat depth) accepted)"
  using admit_on_nats [OF assms, of agent cyclic depth accepted]
  by (auto simp: admissible_def unat_eq_0)

theorem admit_meets_spec_witness:
  "fst (admit [''a'', ''b'', ''a''] ''a'' 2 5 [''a'']) =
      ((2 = (0 :: uint32) \<or> count_list [''a'', ''b'', ''a''] ''a'' < unat (2 :: uint32)) \<and>
       (5 = (0 :: uint32) \<or> length [''a'', ''b'', ''a''] < unat (5 :: uint32)) \<and>
       ([''a'', ''b'', ''a''] = [] \<or> [''a''] = [] \<or> last [''a'', ''b'', ''a''] \<in> set [''a''])) \<and>
    snd (admit [''a'', ''b'', ''a''] ''a'' 2 5 [''a'']) =
      (if fst (admit [''a'', ''b'', ''a''] ''a'' 2 5 [''a'']) then []
       else rejection [''a'', ''b'', ''a''] ''a'' (unat (2 :: uint32)) (unat (5 :: uint32)) [''a''])"
  by (rule admit_meets_spec) simp

text \<open>The way of one message through the agents: each agent admits what it receives under its own limits and
  accepted senders, and its emit carries the chain with its name appended.\<close>

record limits =
  li_cyclic :: uint32
  li_depth :: uint32
  li_accepted :: "string list"

inductive travels :: "(string \<Rightarrow> limits) \<Rightarrow> string list \<Rightarrow> bool" for lims where
  origin: "travels lims []"
| hop: "travels lims chain \<Longrightarrow>
    fst (admit chain agent (li_cyclic (lims agent)) (li_depth (lims agent)) (li_accepted (lims agent))) \<Longrightarrow>
    travels lims (chain @ [agent])"

text \<open>The conversion to \<open>uint32\<close> cannot be outrun: the chain grows by one at a time, so a depth limit stops it before
  its length wraps around.\<close>

lemma travels_depth:
  assumes "travels lims chain" "\<forall>a. li_depth (lims a) = d" "d \<noteq> 0"
  shows "length chain \<le> unat d"
  using assms(1)
proof induction
  case (hop chain agent)
  have "length chain < 2 ^ 32"
    using hop.IH unat_uint32_less [of d] by simp
  then have "length chain < unat d"
    using hop.hyps(2) assms(2,3) by (simp add: admit_on_nats admissible_def unat_eq_0 split: if_splits)
  then show ?case
    by simp
qed simp

text \<open>C14: with a depth limit shared by the agents a message visits at most that many of them, and an agent with a
  cyclic limit emits at most that many times along one way.\<close>

theorem travels_bounded:
  assumes "travels lims chain" "\<forall>a. li_depth (lims a) = d" "d \<noteq> 0"
    and "li_cyclic (lims agent) \<noteq> 0"
  shows "length chain \<le> unat d \<and> count_list chain agent \<le> unat (li_cyclic (lims agent))"
proof -
  have "count_list chain agent \<le> unat (li_cyclic (lims agent))"
    using assms(1)
  proof induction
    case (hop chain a)
    have "length chain < 2 ^ 32"
      using travels_depth [OF hop.hyps(1) assms(2,3)] unat_uint32_less [of d] by simp
    then show ?case
      using hop.hyps(2) hop.IH assms(4) by (cases "a = agent") (simp_all add: admit_on_nats admissible_def unat_eq_0 split: if_splits)
  qed simp
  then show ?thesis
    using travels_depth [OF assms(1-3)] by simp
qed

definition ex_limits :: "string \<Rightarrow> limits" where
  "ex_limits a = \<lparr>li_cyclic = 2, li_depth = 3, li_accepted = []\<rparr>"

lemma ex_travels: "travels ex_limits [''a'', ''b'', ''a'']"
proof -
  have "travels ex_limits ([] @ [''a''])"
    by (intro hop origin) (simp add: admit_def ex_limits_def to_uint32_def word_le_nat_alt)
  then have "travels ex_limits (([] @ [''a'']) @ [''b''])"
    by (rule hop) (simp add: admit_def ex_limits_def to_uint32_def word_le_nat_alt)
  then have "travels ex_limits ((([] @ [''a'']) @ [''b'']) @ [''a''])"
    by (rule hop) (simp add: admit_def ex_limits_def to_uint32_def word_le_nat_alt)
  then show ?thesis
    by simp
qed

theorem travels_bounded_witness:
  "length [''a'', ''b'', ''a''] \<le> unat (3 :: uint32) \<and>
    count_list [''a'', ''b'', ''a''] ''a'' \<le> unat (li_cyclic (ex_limits ''a''))"
  by (rule travels_bounded [OF ex_travels]) (simp_all add: ex_limits_def)

end
