(* ===== verification/Settings.thy ===== *)
theory Settings
  imports Go_Json_Value
begin

text \<open>
  The scan settings, \<open>internal/settings/settings.go\<close>. The protobuf library and the embedded descriptor set are
  not code of the repository: the record \<open>settings_lib\<close> holds the functions of the library the code calls, on
  abstract types of descriptors \<open>'d\<close>, descriptor files \<open>'f\<close> and messages \<open>'m\<close>, and the embedded bytes are
  an argument. Files are read through a function from paths to their contents.
\<close>

section \<open>Files and the protobuf library\<close>

datatype file_error = NotExist | OtherFileError

type_synonym file_system = "string \<Rightarrow> file_error + bytes"

datatype 'd found = FoundMessage 'd | FoundOther

text \<open>A \<open>protoreflect.Value\<close>, by its kind; the nil \<open>[]byte\<close> is \<open>None\<close>.\<close>

datatype 'm pvalue =
    PString string
  | PUint "64 word"
  | PBytes "bytes option"
  | PList "'m pvalue list"
  | PMessage 'm
  | POther

text \<open>\<open>proto.Unmarshal\<close> of a descriptor set followed by \<open>protodesc.NewFiles\<close>, in two steps; \<open>FindDescriptorByName\<close>;
  \<open>proto.Unmarshal\<close> into a dynamic message; whether the message's type has a field of a name (\<open>Fields().ByName\<close> finds
  one), and the value of such a field (\<open>Get\<close>), the zero value when it is unset; and how \<open>String\<close> formats a value
  that is not a string.\<close>

record ('s, 'f, 'd, 'm) settings_lib =
  sl_set :: "bytes \<Rightarrow> 's option"
  sl_files :: "'s \<Rightarrow> 'f option"
  sl_find :: "'f \<Rightarrow> string \<Rightarrow> 'd found option"
  sl_message :: "'d \<Rightarrow> bytes \<Rightarrow> 'm option"
  sl_has_field :: "'m \<Rightarrow> string \<Rightarrow> bool"
  sl_get :: "'m \<Rightarrow> string \<Rightarrow> 'm pvalue"
  sl_format :: "'m pvalue \<Rightarrow> string"

section \<open>Data\<close>

record setting_arg =
  sa_name :: string
  sa_type :: string
  sa_value :: "bytes option"

record settings =
  st_key :: string
  st_bus_url :: string
  st_bus_exchange_topic :: string
  st_args :: "setting_arg list"
  st_redis_url :: string
  st_healthcheck_host :: string
  st_healthcheck_port :: uint32
  st_cyclic_processing_limit :: uint32
  st_depth_processing_limit :: uint32
  st_accepted_agents :: "string list"
  st_in_selectors :: "string list"
  st_service_name :: string

datatype settings_error =
    ReadSettings string file_error
  | ParseDescriptorSet
  | BuildDescriptorFiles
  | ResolveSettings
  | SettingsNotAMessage
  | ParseSettings
  | DecodeArg string
  | FieldPanic string

definition settings_path :: string where
  "settings_path = ''/tmp/settings.binproto''"

definition settingsMessage :: string where
  "settingsMessage = ''ostorlab.runtimes.proto.AgentInstanceSettings''"

section \<open>The descriptor, resolved once\<close>

text \<open>\<open>descOnce\<close> with \<open>descMD\<close> and \<open>descErr\<close>: not run yet, or run with this result.\<close>

type_synonym 'd desc_cache = "(settings_error + 'd) option"

definition resolveDescriptor :: "('s, 'f, 'd, 'm) settings_lib \<Rightarrow> bytes \<Rightarrow> settings_error + 'd" where
  "resolveDescriptor lib fdset =
     bindE (ofOption ParseDescriptorSet (sl_set lib fdset)) (\<lambda>s.
     bindE (ofOption BuildDescriptorFiles (sl_files lib s)) (\<lambda>files.
     bindE (ofOption ResolveSettings (sl_find lib files settingsMessage)) (\<lambda>d.
     case d of FoundMessage md \<Rightarrow> Inr md | FoundOther \<Rightarrow> Inl SettingsNotAMessage)))"

definition messageDescriptor :: "('s, 'f, 'd, 'm) settings_lib \<Rightarrow> bytes \<Rightarrow> 'd desc_cache \<Rightarrow>
    (settings_error + 'd) \<times> 'd desc_cache" where
  "messageDescriptor lib fdset cache =
     (let r = (case cache of Some r \<Rightarrow> r | None \<Rightarrow> resolveDescriptor lib fdset) in (r, Some r))"

section \<open>Reading the fields\<close>

text \<open>A field descriptor is represented by the name of its field. \<open>Get\<close> of the nil descriptor panics, and so do \<open>Uint\<close>,
  \<open>List\<close>, \<open>Message\<close> and \<open>Bytes\<close> of a value of another kind: \<open>FieldPanic\<close>.\<close>

definition field :: "('s, 'f, 'd, 'm) settings_lib \<Rightarrow> 'm \<Rightarrow> string \<Rightarrow> string option" where
  "field lib m name = (if sl_has_field lib m name then Some name else None)"

definition getField :: "('s, 'f, 'd, 'm) settings_lib \<Rightarrow> 'm \<Rightarrow> string \<Rightarrow> settings_error + 'm pvalue" where
  "getField lib m name = bindE (ofOption (FieldPanic name) (field lib m name)) (\<lambda>fd. Inr (sl_get lib m fd))"

fun value_string :: "('s, 'f, 'd, 'm) settings_lib \<Rightarrow> 'm pvalue \<Rightarrow> string" where
  "value_string lib (PString s) = s"
| "value_string lib v = sl_format lib v"

definition getString :: "('s, 'f, 'd, 'm) settings_lib \<Rightarrow> 'm \<Rightarrow> string \<Rightarrow> settings_error + string" where
  "getString lib m name = bindE (getField lib m name) (\<lambda>v. Inr (value_string lib v))"

definition getUint32 :: "('s, 'f, 'd, 'm) settings_lib \<Rightarrow> 'm \<Rightarrow> string \<Rightarrow> settings_error + uint32" where
  "getUint32 lib m name =
     bindE (getField lib m name) (\<lambda>v. case v of PUint u \<Rightarrow> Inr (ucast u) | _ \<Rightarrow> Inl (FieldPanic name))"

definition getBytes :: "('s, 'f, 'd, 'm) settings_lib \<Rightarrow> 'm \<Rightarrow> string \<Rightarrow> settings_error + bytes option" where
  "getBytes lib m name =
     bindE (getField lib m name) (\<lambda>v. case v of PBytes bs \<Rightarrow> Inr bs | _ \<Rightarrow> Inl (FieldPanic name))"

definition getStrings :: "('s, 'f, 'd, 'm) settings_lib \<Rightarrow> 'm \<Rightarrow> string \<Rightarrow> settings_error + string list" where
  "getStrings lib m name =
     bindE (getField lib m name) (\<lambda>v. case v of PList vs \<Rightarrow> Inr (map (value_string lib) vs) | _ \<Rightarrow> Inl (FieldPanic name))"

fun args_of :: "('s, 'f, 'd, 'm) settings_lib \<Rightarrow> 'm pvalue list \<Rightarrow> settings_error + setting_arg list" where
  "args_of lib [] = Inr []"
| "args_of lib (v # vs) =
     bindE (case v of PMessage am \<Rightarrow> Inr am | _ \<Rightarrow> Inl (FieldPanic ''args'')) (\<lambda>am.
     bindE (getString lib am ''name'') (\<lambda>n.
     bindE (getString lib am ''type'') (\<lambda>ty.
     bindE (getBytes lib am ''value'') (\<lambda>bs.
     bindE (args_of lib vs) (\<lambda>as. Inr (\<lparr>sa_name = n, sa_type = ty, sa_value = bs\<rparr> # as))))))"

definition getArgs :: "('s, 'f, 'd, 'm) settings_lib \<Rightarrow> 'm \<Rightarrow> settings_error + setting_arg list" where
  "getArgs lib m =
     bindE (getField lib m ''args'') (\<lambda>v. case v of PList vs \<Rightarrow> args_of lib vs | _ \<Rightarrow> Inl (FieldPanic ''args''))"

definition settings_of :: "('s, 'f, 'd, 'm) settings_lib \<Rightarrow> 'm \<Rightarrow> settings_error + settings" where
  "settings_of lib msg =
     bindE (getString lib msg ''key'') (\<lambda>key.
     bindE (getString lib msg ''bus_url'') (\<lambda>url.
     bindE (getString lib msg ''bus_exchange_topic'') (\<lambda>topic.
     bindE (getArgs lib msg) (\<lambda>args.
     bindE (getString lib msg ''redis_url'') (\<lambda>redis.
     bindE (getString lib msg ''healthcheck_host'') (\<lambda>host.
     bindE (getUint32 lib msg ''healthcheck_port'') (\<lambda>port.
     bindE (getUint32 lib msg ''cyclic_processing_limit'') (\<lambda>cyclic.
     bindE (getUint32 lib msg ''depth_processing_limit'') (\<lambda>depth.
     bindE (getStrings lib msg ''accepted_agents'') (\<lambda>accepted.
     bindE (getStrings lib msg ''in_selectors'') (\<lambda>selectors.
     bindE (getString lib msg ''service_name'') (\<lambda>service.
       Inr \<lparr>st_key = key, st_bus_url = url, st_bus_exchange_topic = topic, st_args = args, st_redis_url = redis,
         st_healthcheck_host = host, st_healthcheck_port = port, st_cyclic_processing_limit = cyclic,
         st_depth_processing_limit = depth, st_accepted_agents = accepted, st_in_selectors = selectors,
         st_service_name = service\<rparr>))))))))))))"

definition parseSettings :: "('s, 'f, 'd, 'm) settings_lib \<Rightarrow> bytes \<Rightarrow> 'd desc_cache \<Rightarrow> bytes \<Rightarrow>
    (settings_error + settings) \<times> 'd desc_cache" where
  "parseSettings lib fdset cache data' =
     (case messageDescriptor lib fdset cache of (r, cache') \<Rightarrow>
        (bindE r (\<lambda>md. bindE (ofOption ParseSettings (sl_message lib md data')) (settings_of lib)), cache'))"

definition loadSettings :: "('s, 'f, 'd, 'm) settings_lib \<Rightarrow> bytes \<Rightarrow> file_system \<Rightarrow> 'd desc_cache \<Rightarrow> string \<Rightarrow>
    (settings_error + settings) \<times> 'd desc_cache" where
  "loadSettings lib fdset files cache path =
     (case files path of
        Inl e \<Rightarrow> (Inl (ReadSettings path e), cache)
      | Inr data' \<Rightarrow> parseSettings lib fdset cache data')"

section \<open>Arguments\<close>

definition decodeArg :: "setting_arg \<Rightarrow> settings_error + goval" where
  "decodeArg a =
     (if sa_type a = ''binary'' then Inr (GBytes (sa_value a))
      else ofOption (DecodeArg (sa_name a)) (unmarshal of_json (case sa_value a of None \<Rightarrow> [] | Some bs \<Rightarrow> bs)))"

section \<open>Facts\<close>

text \<open>The descriptor is resolved at most once: what the first call found, every later one returns, errors included.\<close>

lemma messageDescriptor_cached:
  "messageDescriptor lib fdset cache = (r, cache') \<Longrightarrow> messageDescriptor lib' fdset' cache' = (r, cache')"
  by (auto simp: messageDescriptor_def Let_def)

lemma decodeArg_binary: "sa_type a = ''binary'' \<Longrightarrow> decodeArg a = Inr (GBytes (sa_value a))"
  by (simp add: decodeArg_def)

lemma decodeArg_name: "decodeArg a = Inl e \<Longrightarrow> e = DecodeArg (sa_name a) \<and> sa_type a \<noteq> ''binary''"
  by (auto simp: decodeArg_def split: if_splits)

end
