(* ===== verification/Manifest.thy ===== *)
theory Manifest
  imports Settings
begin

text \<open>
  The agent definition, \<open>internal/manifest/manifest.go\<close>. The YAML library is not code of the repository: what it
  decodes a document into, the struct \<open>wire\<close>, comes from a function of the bytes (\<open>None\<close> is its error). The
  default of an argument is a dynamic value; an argument without one has \<open>GNil\<close>.
\<close>

record manifest_arg =
  ma_name :: string
  ma_value :: goval

record manifest =
  mf_name :: string
  mf_in_selectors :: "string list"
  mf_out_selectors :: "string list"
  mf_args :: "manifest_arg list"

record manifest_wire =
  mw_name :: string
  mw_in_selectors :: "string list"
  mw_out_selectors :: "string list"
  mw_args :: "(string \<times> goval) list"

datatype manifest_error = ReadManifest string file_error | ParseYaml

definition manifest_path :: string where
  "manifest_path = ''/tmp/ostorlab.yaml''"

definition parseManifest :: "(bytes \<Rightarrow> manifest_wire option) \<Rightarrow> bytes \<Rightarrow> manifest_error + manifest" where
  "parseManifest yaml data' =
     bindE (ofOption ParseYaml (yaml data')) (\<lambda>w.
       Inr \<lparr>mf_name = mw_name w, mf_in_selectors = mw_in_selectors w, mf_out_selectors = mw_out_selectors w,
            mf_args = (if 0 < length (mw_args w) then map (\<lambda>(n, v). \<lparr>ma_name = n, ma_value = v\<rparr>) (mw_args w) else [])\<rparr>)"

definition loadManifest :: "(bytes \<Rightarrow> manifest_wire option) \<Rightarrow> file_system \<Rightarrow> string \<Rightarrow> manifest_error + manifest" where
  "loadManifest yaml files path =
     (case files path of
        Inl e \<Rightarrow> Inl (ReadManifest path e)
      | Inr data' \<Rightarrow> parseManifest yaml data')"

end
