(* ===== verification/Health.thy ===== *)
theory Health
  imports Goxo_Prelude
begin

text \<open>
  The liveness endpoint, \<open>internal/health/health.go\<close>: opening it, what it answers while it is open, and closing it.
  The operating system decides whether an address can be listened on and resolves its port; \<open>net/http\<close> carries the
  requests. The answers are those of a \<open>ServeMux\<close> with the one pattern \<open>GET /status\<close>, for a path that is already clean.
\<close>

definition status_endpoint :: "string \<Rightarrow> string \<Rightarrow> nat \<times> string" where
  "status_endpoint meth path =
     (if path \<noteq> ''/status'' then (404, ''404 page not found'' @ [CHR 0x0A])
      else if meth = ''GET'' then (200, ''OK'')
      else if meth = ''HEAD'' then (200, [])
      else (405, ''Method Not Allowed'' @ [CHR 0x0A]))"

text \<open>\<open>Server\<close>: the address its listener was given, and whether it still listens. \<open>listen\<close> is \<open>net.Listen\<close>, which gives the
  resolved address.\<close>

record health_server =
  hs_addr :: string
  hs_open :: bool

datatype health_error = ListenFailed string

definition Serve :: "(string \<Rightarrow> string option) \<Rightarrow> string \<Rightarrow> health_error + health_server" where
  "Serve listen addr =
     (case listen addr of
        None \<Rightarrow> Inl (ListenFailed addr)
      | Some resolved \<Rightarrow> Inr \<lparr>hs_addr = resolved, hs_open = True\<rparr>)"

definition Addr :: "health_server \<Rightarrow> string" where
  "Addr srv = hs_addr srv"

definition Close :: "health_server \<Rightarrow> health_server" where
  "Close srv = srv\<lparr>hs_open := False\<rparr>"

text \<open>The serving goroutine: the answer to a request sent to an address, \<open>None\<close> when nothing listens there.\<close>

definition served :: "health_server \<Rightarrow> string \<Rightarrow> string \<Rightarrow> string \<Rightarrow> (nat \<times> string) option" where
  "served srv addr meth path = (if hs_open srv \<and> addr = Addr srv then Some (status_endpoint meth path) else None)"

end
