(* ===== verification/Engine.thy ===== *)
theory Engine
  imports Bus Worker Admission Manifest Health
begin

text \<open>
  The engine, \<open>internal/engine/engine.go\<close> and \<open>config.go\<close>: the assembly of the configurations, the handling of one
  delivery, and \<open>Run\<close> as the sequence of the calls it makes on the broker, the health listener, the signals
  and the pool. What those answer comes from outside, in a \<open>world\<close>. Go's \<open>int\<close> has 64 bits: \<open>to_int64\<close>
  wraps a product around.
\<close>

section \<open>Configuration (config.go)\<close>

definition Protocol :: int where
  "Protocol = 2"

record params =
  pr_handler :: "string list"
  pr_fdset_path :: string
  pr_universe :: string
  pr_timeout :: int
  pr_pool_size :: int
  pr_worker_cap :: int
  pr_shutdown_grace :: int

datatype engine_error =
    NoAgentName
  | NoHandler
  | NoDescriptorSet
  | ReadDescriptorSet string file_error
  | RegistryFailed codec_error
  | MergeArg string settings_error
  | BusFailed bus_error
  | HealthFailed health_error

definition to_int64 :: "int \<Rightarrow> int" where
  "to_int64 i = sint (word_of_int i :: int64)"

definition inSelectors :: "settings \<Rightarrow> manifest \<Rightarrow> string list" where
  "inSelectors s m = (if st_in_selectors s \<noteq> [] then st_in_selectors s else mf_in_selectors m)"

definition busConfig :: "manifest \<Rightarrow> settings \<Rightarrow> params \<Rightarrow> bus_config" where
  "busConfig m s p =
     \<lparr>bc_url = st_bus_url s, bc_exchange = st_bus_exchange_topic s, bc_agent = mf_name m,
      bc_service = st_service_name s, bc_inputs = inSelectors s m,
      bc_prefetch = to_int64 (pr_pool_size p * pr_worker_cap p)\<rparr>"

text \<open>\<open>mergeArgs\<close>: the settings' values in order over the definition's defaults.\<close>

fun overlay_args :: "setting_arg list \<Rightarrow> dict \<Rightarrow> engine_error + dict" where
  "overlay_args [] out = Inr out"
| "overlay_args (a # as) out =
     (case decodeArg a of
        Inl e \<Rightarrow> Inl (MergeArg (sa_name a) e)
      | Inr v \<Rightarrow> overlay_args as (mput (sa_name a) v out))"

definition mergeArgs :: "manifest_arg list \<Rightarrow> setting_arg list \<Rightarrow> engine_error + gdict" where
  "mergeArgs defs over =
     (if defs = [] \<and> over = [] then Inr None
      else bindE (overlay_args over (mput_all (map (\<lambda>d. (ma_name d, ma_value d)) defs) [])) (\<lambda>out. Inr (Some out)))"

definition workerConfig :: "manifest \<Rightarrow> settings \<Rightarrow> params \<Rightarrow> engine_error + config" where
  "workerConfig m s p =
     bindE (mergeArgs (mf_args m) (st_args s)) (\<lambda>cfg.
       Inr \<lparr>c_command = pr_handler p, c_env = [],
            c_identity = \<lparr>id_agent = mf_name m, id_key = st_key s, id_universe = pr_universe p\<rparr>,
            c_config = cfg, c_inputs = inSelectors s m, c_outputs = mf_out_selectors m,
            c_protocol = Protocol, c_timeout = pr_timeout p\<rparr>)"

section \<open>One delivery\<close>

record engine =
  en_agent :: string
  en_cyclic :: uint32
  en_depth :: uint32
  en_accepted :: "string list"

text \<open>The calls the engine makes, each as one effect.\<close>

datatype effect =
    Amqp request
  | Listen string
  | CloseHealth
  | NotifySignals
  | StopNotify
  | StartPool config int int
  | DrainPool int
  | DispatchToPool delivery

definition handle :: "engine \<Rightarrow> bus_delivery \<Rightarrow> effect" where
  "handle e d =
     (case admit (bd_chain d) (en_agent e) (en_cyclic e) (en_depth e) (en_accepted e) of
        (ok, reason) \<Rightarrow>
          if \<not> ok then Amqp (ack_request (bd_tag d))
          else DispatchToPool \<lparr>d_selector = bd_selector d, d_data = bd_data d, d_chain = bd_chain d,
            d_meta = \<lparr>meta_message_id = bd_message_id d, meta_headers = bd_headers d\<rparr>, d_tag = bd_tag d\<rparr>)"

text \<open>The callbacks a delivery carries, as a verdict calls them.\<close>

fun settle_request :: "nat \<Rightarrow> verdict \<Rightarrow> request" where
  "settle_request tag Ack = ack_request tag"
| "settle_request tag Nack = nack_request tag"
| "settle_request tag Requeue = requeue_request tag"

definition busPublish :: "(request \<Rightarrow> string option) \<Rightarrow> bus_config \<Rightarrow> ('d, 'm) protolib \<Rightarrow> bytes option \<Rightarrow>
    string list \<Rightarrow> string \<Rightarrow> gdict \<Rightarrow> request list \<times> bus_error option" where
  "busPublish answer cfg c random chain selector data' = Publish answer cfg c random chain selector data'"

section \<open>Start-up helpers\<close>

definition healthAddr :: "settings \<Rightarrow> string" where
  "healthAddr s =
     (let host = st_healthcheck_host s; host = (if host = [] then ''0.0.0.0'' else host);
          port = st_healthcheck_port s; port = (if port = 0 then 5000 else port)
      in join_host_port host (itoa (int (unat port))))"

definition loadCodec :: "file_system \<Rightarrow> ('s, 'f, 'd, 'm) codec_lib \<Rightarrow> string \<Rightarrow> engine_error + ('d, 'm) protolib" where
  "loadCodec files lib path =
     (case files path of
        Inl e \<Rightarrow> Inl (ReadDescriptorSet path e)
      | Inr fdset \<Rightarrow> bindE (mapE RegistryFailed (NewRegistry lib fdset)) (\<lambda>reg. Inr (New lib reg)))"

section \<open>Run\<close>

text \<open>
  The world: the files, the protobuf library, the broker's answers, the address a listener gets where one can be
  opened, and what the consumer's \<open>select\<close> yields. \<open>Run\<close> has returned once that contains
  a cancellation or the end of the channel; until then it is running.
\<close>

record ('s, 'f, 'd, 'm) world =
  wd_files :: file_system
  wd_codec :: "('s, 'f, 'd, 'm) codec_lib"
  wd_answer :: "request \<Rightarrow> string option"
  wd_listen :: "string \<Rightarrow> string option"
  wd_events :: "consume_event list"

datatype status = Running | Returned "engine_error option"

type_synonym script = "effect list \<times> status"

text \<open>Effects before the rest of a function, and a deferred call, made when the rest returns.\<close>

definition perform :: "effect list \<Rightarrow> script \<Rightarrow> script" where
  "perform effs r = (effs @ fst r, snd r)"

definition deferring :: "effect list \<Rightarrow> script \<Rightarrow> script" where
  "deferring cleanup r = (case snd r of Running \<Rightarrow> r | Returned e \<Rightarrow> (fst r @ cleanup, Returned e))"

definition effect_of :: "engine \<Rightarrow> outcome \<Rightarrow> effect" where
  "effect_of e out = (case out of Dropped r \<Rightarrow> Amqp r | Handed d \<Rightarrow> handle e d)"

text \<open>The end of \<open>Run\<close>: a cancellation is a clean shutdown.\<close>

definition run_status :: "bus_error option \<Rightarrow> status" where
  "run_status err =
     (case err of
        None \<Rightarrow> Running
      | Some ConsumeCancelled \<Rightarrow> Returned None
      | Some e \<Rightarrow> Returned (Some (BusFailed e)))"

definition engine_of :: "manifest \<Rightarrow> settings \<Rightarrow> engine" where
  "engine_of m s = \<lparr>en_agent = mf_name m, en_cyclic = st_cyclic_processing_limit s,
     en_depth = st_depth_processing_limit s, en_accepted = st_accepted_agents s\<rparr>"

definition run_consuming :: "('s, 'f, 'd, 'm) world \<Rightarrow> manifest \<Rightarrow> settings \<Rightarrow> params \<Rightarrow> ('d, 'm) protolib \<Rightarrow> script" where
  "run_consuming w m s p cdc =
     (if inSelectors s m = [] then ([], Returned None)
      else case Consume (wd_answer w) (busConfig m s p) cdc (wd_events w) of
        (outs, err) \<Rightarrow> (Amqp (consume_request (busConfig m s p)) # map (effect_of (engine_of m s)) outs, run_status err))"

definition run_served :: "('s, 'f, 'd, 'm) world \<Rightarrow> manifest \<Rightarrow> settings \<Rightarrow> params \<Rightarrow> ('d, 'm) protolib \<Rightarrow> config \<Rightarrow> script" where
  "run_served w m s p cdc wcfg =
     perform [Listen (healthAddr s)]
       (case Serve (wd_listen w) (healthAddr s) of
          Inl e \<Rightarrow> ([], Returned (Some (HealthFailed e)))
        | Inr server \<Rightarrow>
            deferring [CloseHealth]
              (perform [NotifySignals] (deferring [StopNotify]
                 (perform [StartPool wcfg (pr_pool_size p) (pr_worker_cap p)] (deferring [DrainPool (pr_shutdown_grace p)]
                    (run_consuming w m s p cdc))))))"

definition Run :: "('s, 'f, 'd, 'm) world \<Rightarrow> manifest \<Rightarrow> settings \<Rightarrow> params \<Rightarrow> script" where
  "Run w m s p =
     (if mf_name m = [] then ([], Returned (Some NoAgentName))
      else if pr_handler p = [] then ([], Returned (Some NoHandler))
      else if pr_fdset_path p = [] then ([], Returned (Some NoDescriptorSet))
      else case loadCodec (wd_files w) (wd_codec w) (pr_fdset_path p) of
        Inl e \<Rightarrow> ([], Returned (Some e))
      | Inr cdc \<Rightarrow>
          (case workerConfig m s p of
             Inl e \<Rightarrow> ([], Returned (Some e))
           | Inr wcfg \<Rightarrow>
               (case connect (wd_answer w) (busConfig m s p) of (reqs, err) \<Rightarrow>
                  perform (map Amqp reqs)
                    (case err of
                       Some e \<Rightarrow> ([], Returned (Some (BusFailed e)))
                     | None \<Rightarrow> deferring (map Amqp (fst (close_bus (wd_answer w)))) (run_served w m s p cdc wcfg)))))"

end
