(* ===== verification/Engine_Properties.thy ===== *)
theory Engine_Properties
  imports Engine Bus_Properties Pool
begin

text \<open>
  What the engine promises (\<open>internal/engine/engine.go\<close>, \<open>config.go\<close>): every path of \<open>Run\<close> releases what it
  acquired, in reverse order, and touches the broker and the pool only while they are up; each delivery is
  dropped, acked or dispatched as the decoding and the admission decide; the arguments are merged by name; and
  the broker's window is the pool's capacity.
\<close>

section \<open>Resources\<close>

datatype resource = RConn | RChan | RHealth | RSignals | RPool

text \<open>The resources held, the latest first, after an effect; \<open>None\<close> when the effect is not allowed: a resource is
  released only when it is the latest one held, the broker is used only with the channel open, and the pool
  only while it runs.\<close>

definition release :: "resource \<Rightarrow> resource list \<Rightarrow> resource list option" where
  "release r st = (case st of [] \<Rightarrow> None | r' # st' \<Rightarrow> if r' = r then Some st' else None)"

fun held :: "('s, 'f, 'd, 'm) world \<Rightarrow> effect \<Rightarrow> resource list \<Rightarrow> resource list option" where
  "held w (Amqp (ReqDial u)) st = (if st \<noteq> [] then None else Some (if wd_answer w (ReqDial u) = None then [RConn] else []))"
| "held w (Amqp ReqChannel) st =
     (if st \<noteq> [RConn] then None else Some (if wd_answer w ReqChannel = None then [RChan, RConn] else [RConn]))"
| "held w (Amqp ReqCloseChannel) st = release RChan st"
| "held w (Amqp ReqCloseConn) st = release RConn st"
| "held w (Amqp r) st = (if RChan \<in> set st then Some st else None)"
| "held w (Listen a) st = (if RHealth \<in> set st then None else Some (if wd_listen w a = None then st else RHealth # st))"
| "held w CloseHealth st = release RHealth st"
| "held w NotifySignals st = (if RSignals \<in> set st then None else Some (RSignals # st))"
| "held w StopNotify st = release RSignals st"
| "held w (StartPool c n k) st = (if RPool \<in> set st then None else Some (RPool # st))"
| "held w (DrainPool g) st = release RPool st"
| "held w (DispatchToPool d) st = (if RPool \<in> set st then Some st else None)"

fun held_after :: "('s, 'f, 'd, 'm) world \<Rightarrow> effect list \<Rightarrow> resource list \<Rightarrow> resource list option" where
  "held_after w [] st = Some st"
| "held_after w (e # es) st = Option.bind (held w e st) (held_after w es)"

lemma held_after_append: "held_after w (xs @ ys) st = Option.bind (held_after w xs st) (held_after w ys)"
  by (induction xs arbitrary: st) (auto split: Option.bind_splits)

text \<open>The interface of a script, what \<open>perform\<close> and \<open>deferring\<close> keep: started with \<open>st\<close> held, it holds \<open>st\<close> again when
  it returns, and \<open>up\<close> on top while it runs.\<close>

definition brackets :: "('s, 'f, 'd, 'm) world \<Rightarrow> script \<Rightarrow> resource list \<Rightarrow> resource list \<Rightarrow> bool" where
  "brackets w r st up \<longleftrightarrow>
     held_after w (fst r) st = Some (case snd r of Returned _ \<Rightarrow> st | Running \<Rightarrow> up)"

lemma brackets_perform:
  "held_after w effs st = Some st' \<Longrightarrow> (snd r = Running \<Longrightarrow> held_after w (fst r) st' = Some up) \<Longrightarrow>
    (\<And>e. snd r = Returned e \<Longrightarrow> held_after w (fst r) st' = Some st) \<Longrightarrow> brackets w (perform effs r) st up"
  by (auto simp: brackets_def perform_def held_after_append split: status.split)

lemma brackets_acquire:
  assumes "held_after w effs st = Some st'" "held_after w cleanup st' = Some st" "brackets w r st' up"
  shows "brackets w (perform effs (deferring cleanup r)) st up"
  using assms by (cases "snd r") (auto simp: brackets_def perform_def deferring_def held_after_append)

definition uses_channel :: "request \<Rightarrow> bool" where
  "uses_channel r \<longleftrightarrow> r \<noteq> ReqChannel \<and> r \<noteq> ReqCloseChannel \<and> r \<noteq> ReqCloseConn \<and> (\<forall>u. r \<noteq> ReqDial u)"

lemma held_uses: "uses_channel r \<Longrightarrow> RChan \<in> set st \<Longrightarrow> held w (Amqp r) st = Some st"
  by (cases r) (auto simp: uses_channel_def)

lemma held_after_uses: "list_all uses_channel rs \<Longrightarrow> RChan \<in> set st \<Longrightarrow> held_after w (map Amqp rs) st = Some st"
  by (induction rs) (auto simp: held_uses)

lemma held_after_same: "(\<And>e. e \<in> set es \<Longrightarrow> held w e st = Some st) \<Longrightarrow> held_after w es st = Some st"
  by (induction es) auto

lemma setup_uses: "list_all uses_channel (map fst (setup_requests cfg))"
  by (auto simp: setup_requests_def uses_channel_def list_all_iff Let_def)

lemma setup_bus_uses: "list_all uses_channel (fst (setup_bus answer cfg))"
proof -
  obtain zs where "map fst (setup_requests cfg) = fst (setup_bus answer cfg) @ zs"
    using run_requests_prefix [of answer "setup_requests cfg"] by (auto simp: setup_bus_def prefix_def)
  then show ?thesis
    using setup_uses [of cfg] by (metis list_all_append)
qed

lemma dispatch_effect_held: "RChan \<in> set st \<Longrightarrow> RPool \<in> set st \<Longrightarrow> held w (effect_of e (dispatch c d)) st = Some st"
  by (auto simp: effect_of_def dispatch_def handle_def nack_request_def ack_request_def Let_def
      split: sum.split prod.split)

lemma consume_loop_outs: "fst (consume_loop c evs) = map (dispatch c) (before_stop evs)"
  by (induction evs rule: before_stop.induct) (auto split: prod.split)

lemma consuming_held:
  assumes "RChan \<in> set st" "RPool \<in> set st"
  shows "held_after w (fst (run_consuming w m s p cdc)) st = Some st"
proof -
  have outs: "held_after w (map (effect_of e) (fst (consume_loop cdc evs))) st = Some st" for e evs
    using assms by (intro held_after_same) (auto simp: consume_loop_outs dispatch_effect_held)
  show ?thesis
    using assms outs [of "engine_of m s" "wd_events w"]
    by (auto simp: run_consuming_def Consume_def consume_request_def split: prod.splits if_splits)
qed

lemma served_brackets: "brackets w (run_served w m s p cdc wcfg) [RChan, RConn] [RPool, RSignals, RHealth, RChan, RConn]"
proof (cases "wd_listen w (healthAddr s)")
  case None
  then show ?thesis
    by (simp add: run_served_def Serve_def brackets_def perform_def)
next
  case (Some resolved)
  have "brackets w (run_consuming w m s p cdc) [RPool, RSignals, RHealth, RChan, RConn] [RPool, RSignals, RHealth, RChan, RConn]"
    by (simp add: brackets_def consuming_held split: status.split)
  then show ?thesis
    using Some by (auto simp: run_served_def Serve_def release_def intro!: brackets_acquire)
qed

text \<open>C33: on every path of \<open>Run\<close>, errors included, what was acquired is released in reverse order: the pool is
  drained first, with the broker still up, then the signals, the health listener, the channel and the
  connection. The broker is used only while the channel is open and the pool only while it runs; a run that
  has not returned holds all five.\<close>

theorem run_releases_in_reverse:
  "held_after w (fst (Run w m s p)) [] =
     Some (case snd (Run w m s p) of Returned _ \<Rightarrow> [] | Running \<Rightarrow> [RPool, RSignals, RHealth, RChan, RConn])"
proof -
  have close: "held_after w (map Amqp (fst (close_bus (wd_answer w)))) [RChan, RConn] = Some []"
    by (simp add: close_bus_def release_def)
  have setup_ok: "held_after w (map Amqp (fst (setup_bus (wd_answer w) (busConfig m s p)))) [RChan, RConn] = Some [RChan, RConn]"
    by (simp add: held_after_uses setup_bus_uses)
  have "brackets w (Run w m s p) [] [RPool, RSignals, RHealth, RChan, RConn]"
  proof (cases "connect (wd_answer w) (busConfig m s p)")
    case (Pair reqs err)
    have err: "held_after w (map Amqp reqs) [] = Some (if err = None then [RChan, RConn] else [])"
      using Pair setup_ok close
      by (auto simp: connect_def held_after_append release_def split: if_splits prod.splits)
    show ?thesis
      unfolding Run_def Pair
      using err
      by (cases err)
        (auto simp: brackets_def [of w "([], _)"] split: sum.split intro!: brackets_acquire close served_brackets,
         auto simp: brackets_def perform_def)
  qed
  then show ?thesis
    by (simp add: brackets_def)
qed


section \<open>Deliveries\<close>

text \<open>What the engine does with a delivery: nothing but a nack without requeue when it does not decode, nothing but an
  ack when it is not admitted, and otherwise one \<open>Dispatch\<close> of the decoded message.\<close>

definition treats :: "('d, 'm) protolib \<Rightarrow> engine \<Rightarrow> amqp_delivery \<Rightarrow> effect \<Rightarrow> bool" where
  "treats c e d eff \<longleftrightarrow>
     (if \<not> decodes c d then eff = Amqp (ReqNack (ad_tag d) False False)
      else \<exists>chain inner data'. unwrapControl c (ad_body d) = Inr (chain, inner) \<and>
        Decode c (selectorFromRoutingKey (ad_routing_key d)) inner = Inr data' \<and>
        eff = (if fst (admit chain (en_agent e) (en_cyclic e) (en_depth e) (en_accepted e)) then
            DispatchToPool \<lparr>d_selector = selectorFromRoutingKey (ad_routing_key d), d_data = data', d_chain = chain,
              d_meta = \<lparr>meta_message_id = messageIDFromRoutingKey (ad_routing_key d), meta_headers = ad_headers d\<rparr>,
              d_tag = ad_tag d\<rparr>
          else Amqp (ReqAck (ad_tag d) False)))"

lemma dispatch_treats: "treats c e d (effect_of e (dispatch c d))"
  by (auto simp: treats_def decodes_def effect_of_def dispatch_def handle_def nack_request_def ack_request_def Let_def
      split: sum.splits prod.splits)

lemma run_consumed:
  assumes "StartPool wcfg n k \<in> set (fst (Run w m s p))"
  obtains cdc pre post where "loadCodec (wd_files w) (wd_codec w) (pr_fdset_path p) = Inr cdc"
    "workerConfig m s p = Inr wcfg" "n = pr_pool_size p" "k = pr_worker_cap p"
    "fst (Run w m s p) = pre @ StartPool wcfg n k # fst (run_consuming w m s p cdc) @ post"
proof -
  obtain cdc where cdc: "loadCodec (wd_files w) (wd_codec w) (pr_fdset_path p) = Inr cdc"
    using assms by (auto simp: Run_def split: if_splits sum.splits)
  obtain wcfg' where wcfg': "workerConfig m s p = Inr wcfg'"
    using assms cdc by (auto simp: Run_def split: if_splits sum.splits)
  obtain reqs err where conn: "connect (wd_answer w) (busConfig m s p) = (reqs, err)"
    by fastforce
  have err: "err = None"
    using assms cdc wcfg' conn by (auto simp: Run_def perform_def split: if_splits option.splits)
  have "wd_listen w (healthAddr s) \<noteq> None"
  proof
    assume "wd_listen w (healthAddr s) = None"
    then show False
      using assms cdc wcfg' conn err
      by (auto simp: Run_def perform_def deferring_def run_served_def Serve_def close_bus_def split: if_splits)
  qed
  then obtain resolved where lis: "wd_listen w (healthAddr s) = Some resolved"
    by blast
  define body where "body = fst (run_consuming w m s p cdc)"
  obtain post where run: "fst (Run w m s p) = (map Amqp reqs @ [Listen (healthAddr s), NotifySignals]) @
      StartPool wcfg' (pr_pool_size p) (pr_worker_cap p) # body @ post"
    using assms cdc wcfg' conn err lis
    by (cases "snd (run_consuming w m s p cdc)")
      (auto simp: Run_def perform_def deferring_def run_served_def Serve_def body_def split: if_splits)
  have "StartPool wcfg n k \<notin> set (run_effs)" if "run_effs = map (effect_of e) outs" for run_effs e outs
    using that by (auto simp: effect_of_def handle_def split: outcome.splits prod.splits if_splits)
  then have "StartPool wcfg n k \<notin> set body"
    by (auto simp: body_def run_consuming_def split: prod.splits if_splits)
  moreover have "StartPool wcfg n k \<notin> set post"
    using assms cdc wcfg' conn err lis run
    by (cases "snd (run_consuming w m s p cdc)")
      (auto simp: Run_def perform_def deferring_def run_served_def Serve_def body_def close_bus_def split: if_splits)
  ultimately have eqs: "wcfg = wcfg'" "n = pr_pool_size p" "k = pr_worker_cap p"
    using assms unfolding run by auto
  show thesis
    by (rule that [OF cdc _ eqs(2,3) run [unfolded body_def, folded eqs]]) (simp add: eqs(1) wcfg')
qed

text \<open>C34: once the pool is started and the subscription is accepted, \<open>Run\<close> treats every delivery that arrives before
  the run ends, once and in order: an undecodable one is nacked without requeue, one that admission rejects is
  acked, and any other is dispatched to the pool with its selector, data, chain, message id, headers and tag.\<close>

theorem engine_treats_each_delivery:
  assumes "StartPool wcfg n k \<in> set (fst (Run w m s p))" "inSelectors s m \<noteq> []"
    and "wd_answer w (consume_request (busConfig m s p)) = None"
  shows "\<exists>cdc pre treated post. loadCodec (wd_files w) (wd_codec w) (pr_fdset_path p) = Inr cdc \<and>
    fst (Run w m s p) = pre @ StartPool wcfg n k # Amqp (consume_request (busConfig m s p)) # treated @ post \<and>
    list_all2 (treats cdc (engine_of m s)) (before_stop (wd_events w)) treated"
proof -
  obtain cdc pre post where run: "loadCodec (wd_files w) (wd_codec w) (pr_fdset_path p) = Inr cdc"
      "fst (Run w m s p) = pre @ StartPool wcfg n k # fst (run_consuming w m s p cdc) @ post"
    using run_consumed [OF assms(1)] by metis
  have "fst (run_consuming w m s p cdc) = Amqp (consume_request (busConfig m s p)) #
      map (effect_of (engine_of m s) \<circ> dispatch cdc) (before_stop (wd_events w))"
    using assms(2,3) consume_loop_outs [of cdc "wd_events w"]
    by (auto simp: run_consuming_def Consume_def split: prod.split)
  moreover have "list_all2 (treats cdc (engine_of m s)) ds (map (effect_of (engine_of m s) \<circ> dispatch cdc) ds)" for ds
    by (induction ds) (simp_all add: dispatch_treats)
  ultimately show ?thesis
    using run by (metis append_Cons)
qed


section \<open>An example run\<close>

definition ex_manifest :: manifest where
  "ex_manifest = \<lparr>mf_name = ''agent/test'', mf_in_selectors = [''v3.asset.ip''], mf_out_selectors = [''v3.report.vuln''],
     mf_args = []\<rparr>"

definition ex_settings :: settings where
  "ex_settings = \<lparr>st_key = ''test'', st_bus_url = ''amqp://mq'', st_bus_exchange_topic = ''x'',
     st_args = [], st_redis_url = [], st_healthcheck_host = [], st_healthcheck_port = 0, st_cyclic_processing_limit = 0,
     st_depth_processing_limit = 0, st_accepted_agents = [], st_in_selectors = [], st_service_name = []\<rparr>"

definition ex_params :: params where
  "ex_params = \<lparr>pr_handler = [''/app/handler''], pr_fdset_path = ''f'', pr_universe = [], pr_timeout = 30, pr_pool_size = 2,
     pr_worker_cap = 1, pr_shutdown_grace = 10 ^ 10\<rparr>"

definition ex_codec_lib :: "(unit, unit, unit, json) codec_lib" where
  "ex_codec_lib = \<lparr>cl_set = (\<lambda>_. Some ()), cl_files = (\<lambda>_. Some ()), cl_find = (\<lambda>_. find_descriptor ex_lib),
     cl_unmarshal = proto_unmarshal ex_lib, cl_marshal = proto_marshal ex_lib,
     cl_json_marshal = (\<lambda>opts _. protojson_marshal ex_lib), cl_json_unmarshal = (\<lambda>_. protojson_unmarshal ex_lib)\<rparr>"

lemma ex_codec: "NewRegistry ex_codec_lib fdset = Inr ()" "New ex_codec_lib () = ex_lib"
  by (simp_all add: NewRegistry_def New_def ex_codec_lib_def)

definition ex_world :: "consume_event list \<Rightarrow> (unit, unit, unit, json) world" where
  "ex_world evs = \<lparr>wd_files = (\<lambda>_. Inr []), wd_codec = ex_codec_lib, wd_answer = (\<lambda>_. None),
     wd_listen = Some, wd_events = evs\<rparr>"

lemma ex_workerConfig: "workerConfig ex_manifest ex_settings ex_params = Inr ex_cfg"
  by (simp add: workerConfig_def mergeArgs_def ex_manifest_def ex_settings_def ex_params_def ex_cfg_def
      inSelectors_def Protocol_def)

lemma ex_starts: "StartPool ex_cfg 2 1 \<in> set (fst (Run (ex_world evs) ex_manifest ex_settings ex_params))"
proof -
  have "connect (\<lambda>_. None) cfg = (fst (connect (\<lambda>_. None) cfg), None)" for cfg
    using run_requests_none [of "\<lambda>_. None" "setup_requests cfg"]
    by (auto simp: connect_def setup_bus_def split: prod.split)
  then obtain reqs where conn: "connect (\<lambda>_. None) (busConfig ex_manifest ex_settings ex_params) = (reqs, None)"
    by metis
  have "loadCodec (wd_files (ex_world evs)) (wd_codec (ex_world evs)) (pr_fdset_path ex_params) = Inr ex_lib"
    by (simp add: loadCodec_def ex_world_def ex_codec)
  moreover have "mf_name ex_manifest \<noteq> []" "pr_handler ex_params \<noteq> []" "pr_fdset_path ex_params \<noteq> []"
      "pr_pool_size ex_params = 2" "pr_worker_cap ex_params = 1"
    by (simp_all add: ex_manifest_def ex_params_def)
  moreover have "wd_answer (ex_world evs) = (\<lambda>_. None)" "wd_listen (ex_world evs) a = Some a" for a
    by (simp_all add: ex_world_def)
  ultimately show ?thesis
    using conn by (simp add: Run_def ex_workerConfig run_served_def Serve_def perform_def deferring_def split: status.split)
qed

text \<open>A message on its way from another agent, and a run in which two arrive.\<close>

definition ex_envelope :: bytes where
  "ex_envelope = (case wrapControl ex_lib [''agent/upstream''] ex_wire_data of Inr body \<Rightarrow> body | Inl e \<Rightarrow> [])"

definition ex_arrival :: "nat \<Rightarrow> amqp_delivery" where
  "ex_arrival tag = \<lparr>ad_tag = tag, ad_routing_key = ''v3.asset.ip.m-1'', ad_headers = None, ad_body = ex_envelope\<rparr>"

definition ex_events :: "consume_event list" where
  "ex_events = [EvDelivery (ex_arrival 7), EvDelivery (ex_arrival 8), EvCancelled]"

lemma ex_upstream_valid: "list_all valid_utf8 [''agent/upstream'']"
  by code_simp

lemma ex_key: "selectorFromRoutingKey ''v3.asset.ip.m-1'' = ''v3.asset.ip''" "messageIDFromRoutingKey ''v3.asset.ip.m-1'' = ''m-1''"
  by code_simp+

lemma ex_arrival_dispatched: "effect_of (engine_of ex_manifest ex_settings) (dispatch ex_lib (ex_arrival tag)) = DispatchToPool (ex_msg tag)"
proof -
  obtain body where "wrapControl ex_lib [''agent/upstream''] ex_wire_data = Inr body"
      "unwrapControl ex_lib body = Inr ([''agent/upstream''], ex_wire_data)"
    using unwrap_wrap_ok [OF ex_lib_faithful ex_lib_control ex_upstream_valid] by blast
  then have "unwrapControl ex_lib ex_envelope = Inr ([''agent/upstream''], ex_wire_data)"
    by (simp add: ex_envelope_def)
  then show ?thesis
    by (simp add: dispatch_def ex_arrival_def ex_key ex_decode effect_of_def handle_def engine_of_def ex_settings_def
        ex_manifest_def admit_def ex_msg_def ex_data_def)
qed

theorem engine_treats_each_delivery_witness:
  "\<exists>cdc pre treated post. loadCodec (wd_files (ex_world ex_events)) (wd_codec (ex_world ex_events)) (pr_fdset_path ex_params) = Inr cdc \<and>
    fst (Run (ex_world ex_events) ex_manifest ex_settings ex_params) =
      pre @ StartPool ex_cfg 2 1 # Amqp (consume_request (busConfig ex_manifest ex_settings ex_params)) # treated @ post \<and>
    list_all2 (treats cdc (engine_of ex_manifest ex_settings)) [ex_arrival 7, ex_arrival 8] treated"
proof -
  have "inSelectors ex_settings ex_manifest \<noteq> []" "wd_answer (ex_world ex_events) r = None"
      "before_stop (wd_events (ex_world ex_events)) = [ex_arrival 7, ex_arrival 8]" for r
    by (simp_all add: inSelectors_def ex_manifest_def ex_settings_def ex_world_def ex_events_def)
  then show ?thesis
    using engine_treats_each_delivery [OF ex_starts [of ex_events]] by metis
qed

section \<open>Arguments\<close>

lemma overlay_args_Inr: "overlay_args as out = Inr r \<longleftrightarrow>
    (\<exists>vs. map decodeArg as = map Inr vs \<and> r = mput_all (zip (map sa_name as) vs) out)"
proof (induction as arbitrary: out)
  case Nil
  then show ?case
    by (auto simp: mput_all_def)
next
  case (Cons a as)
  then show ?case
    by (cases "decodeArg a") (auto simp: mput_all_def Cons_eq_map_conv)
qed

lemma overlay_args_Inl: "overlay_args as out = Inl e \<Longrightarrow> \<exists>a e'. a \<in> set as \<and> decodeArg a = Inl e' \<and> e = MergeArg (sa_name a) e'"
  by (induction as arbitrary: out) (fastforce split: sum.splits)+

lemma mergeArgs_Inr:
  assumes "mergeArgs defs over = Inr cfg"
  shows "\<exists>vs. map decodeArg over = map Inr vs \<and> (cfg = None) = (defs = [] \<and> over = []) \<and>
    dget cfg = (map_of (rev (map (\<lambda>d. (ma_name d, ma_value d)) defs)) ++ map_of (rev (zip (map sa_name over) vs)))"
proof (cases "defs = [] \<and> over = []")
  case True
  then show ?thesis
    using assms by (simp add: mergeArgs_def fun_eq_iff)
next
  case False
  then obtain out where out: "cfg = Some out"
      "overlay_args over (mput_all (map (\<lambda>d. (ma_name d, ma_value d)) defs) []) = Inr out"
    using assms by (auto simp: mergeArgs_def err_iffs)
  then obtain vs where "map decodeArg over = map Inr vs"
      "out = mput_all (zip (map sa_name over) vs) (mput_all (map (\<lambda>d. (ma_name d, ma_value d)) defs) [])"
    by (auto simp: overlay_args_Inr)
  then show ?thesis
    using False out(1) by (intro exI [of _ vs]) (auto simp: map_of_mput_all map_add_def fun_eq_iff split: option.splits)
qed

text \<open>C39: the config a handler receives. Merging fails only on an argument of the settings that does not decode, and
  names it. Otherwise the config is nil exactly when no argument is declared or set, and an argument's value is the
  last one the settings give for its name, else the last default declared.\<close>

theorem mergeArgs_overlays:
  "case mergeArgs defs over of
     Inl e \<Rightarrow> \<exists>a e'. a \<in> set over \<and> decodeArg a = Inl e' \<and> e = MergeArg (sa_name a) e'
   | Inr cfg \<Rightarrow> \<exists>vs. map decodeArg over = map Inr vs \<and> (cfg = None) = (defs = [] \<and> over = []) \<and>
       dget cfg = (map_of (rev (map (\<lambda>d. (ma_name d, ma_value d)) defs)) ++ map_of (rev (zip (map sa_name over) vs)))"
  using mergeArgs_Inr [of defs over]
  by (auto simp: mergeArgs_def err_iffs split: sum.split if_splits dest!: overlay_args_Inl)

section \<open>The window and the pool\<close>

lemma to_int64_small: "- (2 ^ 63) \<le> i \<Longrightarrow> i < 2 ^ 63 \<Longrightarrow> to_int64 i = i"
  by (simp add: to_int64_def signed_of_int signed_take_bit_int_eq_self)

text \<open>C40: with a positive pool size and worker capacity the window asked of the broker is the number of messages the
  started pool can have in flight, the sum of its workers' capacities.\<close>

theorem prefetch_is_capacity:
  assumes "1 \<le> pr_pool_size p" "1 \<le> pr_worker_cap p" "pr_pool_size p * pr_worker_cap p < 2 ^ 63"
  shows "clamp_prefetch (bc_prefetch (busConfig m s p)) =
    sum_list (map (\<lambda>ws. w_cap (s_w ws)) (ps_ws (start_pool wcfg (pr_pool_size p) (pr_worker_cap p))))"
proof -
  have pos: "1 \<le> pr_pool_size p * pr_worker_cap p"
    using assms(1,2) mult_mono [of 1 "pr_pool_size p" 1 "pr_worker_cap p"] by simp
  have "clamp_prefetch (bc_prefetch (busConfig m s p)) = pr_pool_size p * pr_worker_cap p"
    using pos assms(3) by (simp add: busConfig_def to_int64_small clamp_prefetch_def)
  moreover have "sum_list (map (\<lambda>ws. w_cap (s_w ws)) (ps_ws (start_pool wcfg n k))) = n * k" if "1 \<le> n" "1 \<le> k" for n k
    using that by (simp add: start_pool_def at_least_one_def init_sys_def newWorker_def comp_def sum_list_triv)
  ultimately show ?thesis
    using assms(1,2) by simp
qed

theorem prefetch_is_capacity_witness:
  "clamp_prefetch (bc_prefetch (busConfig ex_manifest ex_settings (ex_params\<lparr>pr_worker_cap := 3\<rparr>))) =
    sum_list (map (\<lambda>ws. w_cap (s_w ws)) (ps_ws (start_pool ex_cfg 2 3)))"
  using prefetch_is_capacity [of "ex_params\<lparr>pr_worker_cap := 3\<rparr>" ex_manifest ex_settings ex_cfg] by (simp add: ex_params_def)

text \<open>Without the positive sizes it is not: with a pool size of -2 and a capacity of -3 the window is six while the pool
  takes one message, and with a pool size of 0 and a capacity of 4 it is one while the pool takes four.\<close>

lemma prefetch_not_capacity:
  "clamp_prefetch (bc_prefetch (busConfig m s (ex_params\<lparr>pr_pool_size := -2, pr_worker_cap := -3\<rparr>))) = 6"
  "sum_list (map (\<lambda>ws. w_cap (s_w ws)) (ps_ws (start_pool wcfg (-2) (-3)))) = 1"
  "clamp_prefetch (bc_prefetch (busConfig m s (ex_params\<lparr>pr_pool_size := 0, pr_worker_cap := 4\<rparr>))) = 1"
  "sum_list (map (\<lambda>ws. w_cap (s_w ws)) (ps_ws (start_pool wcfg 0 4))) = 4"
  by (simp_all add: busConfig_def to_int64_small clamp_prefetch_def start_pool_def at_least_one_def init_sys_def newWorker_def)

end
