(* ===== verification/Engine_Machine.thy ===== *)
theory Engine_Machine
  imports Engine_Properties Pool_Properties
begin

text \<open>
  The running engine, \<open>internal/engine/engine.go\<close> over \<open>bus.go\<close> and \<open>pool.go\<close>: the consumer goroutine (the \<open>select\<close> of
  \<open>Consume\<close>, \<open>dispatch\<close>, \<open>handle\<close>) side by side with the pool machine, and the deferred \<open>Shutdown\<close> once \<open>Consume\<close> has
  returned. The broker is the environment: it may deliver any message at any time, each under a tag of its own
  (the delivery tags of a channel), and the run may be cancelled at any time.
\<close>

section \<open>State\<close>

text \<open>The consumer: in \<open>select\<close>; about to ack or nack a delivery itself; about to call \<open>Dispatch\<close>; inside it;
  returned from \<open>Consume\<close>.\<close>

datatype consumer_pc =
    CSelect
  | CSettling request
  | CPlacing delivery
  | CDispatching
  | CReturned bus_error

text \<open>The last three fields record the history for the theorems and no step but the broker's numbering reads them.\<close>

record engine_sys =
  es_pool :: pool_sys
  es_cons :: consumer_pc
  es_ctx :: bool
  es_arrived :: "amqp_delivery list"
  es_requests :: "request list"
  es_dispatched :: "delivery list"

definition start_engine :: "config \<Rightarrow> int \<Rightarrow> int \<Rightarrow> engine_sys" where
  "start_engine cfg n capacity =
     \<lparr>es_pool = start_pool cfg n capacity, es_cons = CSelect, es_ctx = False, es_arrived = [], es_requests = [],
      es_dispatched = []\<rparr>"

section \<open>Steps\<close>

text \<open>What the pool does by itself: no new \<open>Dispatch\<close> call, no cancellation, no start of the shutdown.\<close>

definition pool_own :: "pool_sys \<Rightarrow> pool_sys \<Rightarrow> bool" where
  "pool_own p q \<longleftrightarrow> pstep p q \<and> (ps_pick p = PIdle \<longrightarrow> ps_pick q = PIdle) \<and>
     (ps_shut p = ShIdle \<longrightarrow> ps_shut q = ShIdle) \<and> map s_ctx (ps_ws q) = map s_ctx (ps_ws p)"

definition cancel_pool :: "pool_sys \<Rightarrow> pool_sys" where
  "cancel_pool p = p\<lparr>ps_ws := map (\<lambda>s. s\<lparr>s_ctx := True\<rparr>) (ps_ws p)\<rparr>"

definition new_tag :: "amqp_delivery \<Rightarrow> engine_sys \<Rightarrow> bool" where
  "new_tag d s \<longleftrightarrow> ad_tag d \<notin> ad_tag ` set (es_arrived s)"

inductive estep :: "('d, 'm) protolib \<Rightarrow> engine \<Rightarrow> engine_sys \<Rightarrow> engine_sys \<Rightarrow> bool" for c e where
  receive_settles: "es_cons s = CSelect \<Longrightarrow> new_tag d s \<Longrightarrow> effect_of e (dispatch c d) = Amqp r \<Longrightarrow>
    estep c e s (s\<lparr>es_cons := CSettling r, es_arrived := es_arrived s @ [d]\<rparr>)"
| receive_dispatches: "es_cons s = CSelect \<Longrightarrow> new_tag d s \<Longrightarrow> effect_of e (dispatch c d) = DispatchToPool m \<Longrightarrow>
    estep c e s (s\<lparr>es_cons := CPlacing m, es_arrived := es_arrived s @ [d]\<rparr>)"
| settle_now: "es_cons s = CSettling r \<Longrightarrow>
    estep c e s (s\<lparr>es_cons := CSelect, es_requests := es_requests s @ [r]\<rparr>)"
| place: "es_cons s = CPlacing m \<Longrightarrow> n = load_of (ps_ws (es_pool s) ! 0) \<Longrightarrow>
    estep c e s (s\<lparr>es_cons := CDispatching, es_pool := (es_pool s)\<lparr>ps_pick := PScan m (0, n) [n]\<rparr>,
      es_dispatched := es_dispatched s @ [m]\<rparr>)"
| placed: "es_cons s = CDispatching \<Longrightarrow> ps_pick (es_pool s) = PIdle \<Longrightarrow> no_dispatch (es_pool s) \<Longrightarrow>
    estep c e s (s\<lparr>es_cons := CSelect\<rparr>)"
| consume_cancelled: "es_cons s = CSelect \<Longrightarrow> es_ctx s \<Longrightarrow> estep c e s (s\<lparr>es_cons := CReturned ConsumeCancelled\<rparr>)"
| consume_closed: "es_cons s = CSelect \<Longrightarrow> estep c e s (s\<lparr>es_cons := CReturned ConsumeClosed\<rparr>)"
| pool_works: "pool_own (es_pool s) p \<Longrightarrow> estep c e s (s\<lparr>es_pool := p\<rparr>)"
| cancelled: "estep c e s (s\<lparr>es_ctx := True, es_pool := cancel_pool (es_pool s)\<rparr>)"
| drain: "es_cons s = CReturned err \<Longrightarrow> ps_shut (es_pool s) = ShIdle \<Longrightarrow>
    estep c e s (s\<lparr>es_pool := (es_pool s)\<lparr>ps_shut := ShClose 0\<rparr>\<rparr>)"

definition engine_reachable :: "('d, 'm) protolib \<Rightarrow> engine \<Rightarrow> config \<Rightarrow> int \<Rightarrow> int \<Rightarrow> engine_sys \<Rightarrow> bool" where
  "engine_reachable c e cfg n capacity s \<longleftrightarrow> (estep c e)\<^sup>*\<^sup>* (start_engine cfg n capacity) s"

section \<open>What a worker and the pool were handed\<close>

text \<open>The tags a worker's \<open>Dispatch\<close> was called with: registered, refused, or waiting.\<close>

fun waiting :: "disp_pc \<Rightarrow> nat multiset" where
  "waiting (DWait d) = {#d_tag d#}"
| "waiting _ = {#}"

definition handed :: "sys \<Rightarrow> nat multiset" where
  "handed s = image_mset (d_tag \<circ> snd) (mset (s_given s)) + mset (s_refused s) + waiting (s_disp s)"

fun scanned :: "pick_pc \<Rightarrow> nat multiset" where
  "scanned (PScan d best seen) = {#d_tag d#}"
| "scanned PIdle = {#}"

definition pool_handed :: "pool_sys \<Rightarrow> nat multiset" where
  "pool_handed p = sum_list (map handed (ps_ws p)) + scanned (ps_pick p)"

lemma step_handed:
  assumes "wstep s t" "s_disp s = DIdle \<longrightarrow> s_disp t = DIdle"
  shows "handed t = handed s"
  using assms by (cases rule: wstep.cases) (auto simp: handed_def step_defs claim_iffs register_def)

lemma handed_ctx [simp]: "handed (s_ctx_update f s) = handed s"
  by (simp add: handed_def)

lemma step_settled: "wstep s t \<Longrightarrow> s_settled t = s_settled s \<or> (\<exists>x. s_settled t = s_settled s @ [x])"
  by (cases rule: wstep.cases) (auto simp: step_defs claim_iffs register_def)

lemma step_refused: "wstep s t \<Longrightarrow> s_refused t = s_refused s \<or> s_disp s \<noteq> DIdle \<and> (w_closing (s_w s) \<or> s_ctx s)"
  by (cases rule: wstep.cases) (auto simp: step_defs claim_iffs register_def refuses_def)

lemma map_update_same: "f x = f (xs ! i) \<Longrightarrow> map f (xs[i := x]) = map f xs"
  by (cases "i < length xs") (simp_all add: map_update list_update_same_conv list_update_beyond)

lemma sum_map_update:
  fixes f :: "'a \<Rightarrow> 'b multiset"
  assumes "i < length xs" "f x = f (xs ! i) + m"
  shows "sum_list (map f (xs[i := x])) = sum_list (map f xs) + m"
proof -
  have "map f xs = map f (take i xs) @ f (xs ! i) # map f (drop (Suc i) xs)"
    by (subst id_take_nth_drop [OF assms(1)]) simp
  moreover have "map f (xs[i := x]) = map f (take i xs) @ f x # map f (drop (Suc i) xs)"
    using assms(1) by (simp add: upd_conv_take_nth_drop)
  ultimately show ?thesis
    by (simp add: assms(2) ac_simps)
qed

section \<open>Steps of the pool\<close>

text \<open>A worker in a pool step: one of its own, or one of the pool's that leaves the history alone.\<close>

definition same_history :: "sys \<Rightarrow> sys \<Rightarrow> bool" where
  "same_history s t \<longleftrightarrow> handed t = handed s \<and> s_settled t = s_settled s \<and> s_refused t = s_refused s"

lemma kill_history:
  assumes "wstep s t" "s_closer s = CDone" "s_closer t = CKilled"
  shows "same_history s t \<and> s_ctx t = s_ctx s"
  using assms by (auto elim: wstep.cases simp: step_defs same_history_def handed_def)

lemma idle_stays:
  assumes "pool_own p q" "ps_pick p = PIdle" "no_dispatch p"
  shows "no_dispatch q"
proof -
  have "pstep p q"
    using assms(1) by (simp add: pool_own_def)
  then show ?thesis
  proof (cases rule: pstep.cases)
    case (work i s)
    then have "s_disp s = DIdle"
      using assms(3) by (simp add: own_step_def no_dispatch_def)
    then show ?thesis
      using work(1) assms(3) by (auto simp: no_dispatch_def dest!: set_update_subset_insert [THEN subsetD])
  next
    case (wait_kill i s)
    then have "s_disp s = DIdle"
      using assms(3) kill_frame(1) [OF wait_kill(5-7)] by (simp add: no_dispatch_def)
    then show ?thesis
      using wait_kill(1) assms(3) by (auto simp: no_dispatch_def dest!: set_update_subset_insert [THEN subsetD])
  qed (use assms(1-3) in \<open>auto simp: no_dispatch_def pool_own_def beginClose_def dest!: set_update_subset_insert [THEN subsetD]\<close>)
qed

lemma pool_own_handed:
  assumes "pool_own p q" "scan_ok p"
  shows "pool_handed q = pool_handed p"
proof -
  have "pstep p q"
    using assms(1) by (simp add: pool_own_def)
  then show ?thesis
  proof (cases rule: pstep.cases)
    case (work i s)
    then have "handed s = handed (ps_ws p ! i)"
      by (intro step_handed) (simp_all add: own_step_def)
    then show ?thesis
      using work(1) by (simp add: pool_handed_def map_update_same)
  next
    case cancel
    then show ?thesis
      by (simp add: pool_handed_def comp_def)
  next
    case (pick_done d best seen i)
    then have i: "i < length (ps_ws p)" "s_disp (ps_ws p ! i) = DIdle"
      using assms(2) by (auto simp: scan_ok_def least_of_def)
    have "sum_list (map handed ((ps_ws p)[i := (ps_ws p ! i)\<lparr>s_disp := DWait d\<rparr>])) =
        sum_list (map handed (ps_ws p)) + {#d_tag d#}"
      by (rule sum_map_update [OF i(1)]) (simp add: handed_def i(2))
    then show ?thesis
      using pick_done(1,2) by (simp add: pool_handed_def)
  next
    case (close_one i cur w')
    have "handed ((ps_ws p ! i)\<lparr>s_w := w', s_closer := CStop cur\<rparr>) = handed (ps_ws p ! i)"
      by (simp add: handed_def)
    then show ?thesis
      using close_one(1) by (simp add: pool_handed_def map_update_same)
  next
    case (wait_kill i s)
    then have "handed s = handed (ps_ws p ! i)"
      using kill_history [OF wait_kill(5-7)] by (simp add: same_history_def)
    then show ?thesis
      using wait_kill(1) by (simp add: pool_handed_def map_update_same)
  qed (use assms(1) in \<open>auto simp: pool_handed_def pool_own_def\<close>)
qed

text \<open>Before the shutdown no worker is closing.\<close>

definition unclosed :: "pool_sys \<Rightarrow> bool" where
  "unclosed p \<longleftrightarrow> (\<forall>s \<in> set (ps_ws p). s_closer s = CIdle \<and> \<not> w_closing (s_w s))"

lemma step_unclosed: "wstep s t \<Longrightarrow> s_closer t = CIdle \<Longrightarrow> w_closing (s_w t) = w_closing (s_w s)"
  by (cases rule: wstep.cases) (auto simp: step_defs claim_iffs register_def)

lemma unclosed_stays:
  assumes "pool_own p q" "ps_shut p = ShIdle" "unclosed p"
  shows "unclosed q"
proof -
  have "pstep p q"
    using assms(1) by (simp add: pool_own_def)
  then show ?thesis
  proof (cases rule: pstep.cases)
    case (work i s)
    then have old: "s_closer (ps_ws p ! i) = CIdle" "\<not> w_closing (s_w (ps_ws p ! i))"
      using assms(3) by (simp_all add: unclosed_def)
    then have "s_closer s = CIdle" "wstep (ps_ws p ! i) s"
      using work(3) by (simp_all add: own_step_def)
    then have "s_closer s = CIdle \<and> \<not> w_closing (s_w s)"
      using step_unclosed old by blast
    then show ?thesis
      using work(1) assms(3) by (auto simp: unclosed_def dest!: set_update_subset_insert [THEN subsetD])
  next
    case (pick_done d best seen i)
    then show ?thesis
      using assms(3)
    by (cases "i < length (ps_ws p)")
      (auto simp: unclosed_def list_update_beyond dest!: set_update_subset_insert [THEN subsetD])
  qed (use assms in \<open>auto simp: unclosed_def pool_own_def\<close>)
qed

text \<open>Before the shutdown only a cancelled run makes a worker refuse; a killed worker refuses nothing by itself.\<close>

definition refused_tags :: "pool_sys \<Rightarrow> nat multiset" where
  "refused_tags p = sum_list (map (\<lambda>s. mset (s_refused s)) (ps_ws p))"

lemma pool_own_refused:
  assumes "pool_own p q" "scan_ok p" "refused_tags q \<noteq> refused_tags p"
  shows "\<exists>s \<in> set (ps_ws p). s_disp s \<noteq> DIdle \<and> (w_closing (s_w s) \<or> s_ctx s)"
proof -
  have "pstep p q"
    using assms(1) by (simp add: pool_own_def)
  then show ?thesis
  proof (cases rule: pstep.cases)
    case (work i s)
    then have "s_refused s \<noteq> s_refused (ps_ws p ! i)"
      using assms(3) by (auto simp: refused_tags_def map_update_same)
    then have "s_disp (ps_ws p ! i) \<noteq> DIdle \<and> (w_closing (s_w (ps_ws p ! i)) \<or> s_ctx (ps_ws p ! i))"
      using step_refused [of "ps_ws p ! i" s] work(3) by (auto simp: own_step_def)
    then show ?thesis
      using work(2) nth_mem by blast
  next
    case (wait_kill i s)
    then have "s_refused s = s_refused (ps_ws p ! i)"
      using kill_history [OF wait_kill(5-7)] by (simp add: same_history_def)
    then show ?thesis
      using wait_kill(1) assms(3) by (auto simp: refused_tags_def map_update_same)
  next
    case cancel
    then show ?thesis
      using assms(3) by (simp add: refused_tags_def comp_def)
  qed (use assms(3) in \<open>auto simp: refused_tags_def map_update_same\<close>)
qed

section \<open>The invariant\<close>

text \<open>What the consumer has in hand, and what of an arrival is still to be recorded.\<close>

fun settling :: "consumer_pc \<Rightarrow> request list" where
  "settling (CSettling r) = [r]"
| "settling _ = []"

fun placing :: "consumer_pc \<Rightarrow> delivery list" where
  "placing (CPlacing m) = [m]"
| "placing _ = []"

fun amqp_of :: "effect \<Rightarrow> request list" where
  "amqp_of (Amqp r) = [r]"
| "amqp_of _ = []"

fun placed_of :: "effect \<Rightarrow> delivery list" where
  "placed_of (DispatchToPool m) = [m]"
| "placed_of _ = []"

definition treated :: "('d, 'm) protolib \<Rightarrow> engine \<Rightarrow> engine_sys \<Rightarrow> effect list" where
  "treated c e s = map (\<lambda>d. effect_of e (dispatch c d)) (es_arrived s)"

text \<open>The consumer's own history: every arrival is treated as \<open>dispatch\<close> and \<open>handle\<close> say, in order of arrival.\<close>

definition consumer_ok :: "('d, 'm) protolib \<Rightarrow> engine \<Rightarrow> engine_sys \<Rightarrow> bool" where
  "consumer_ok c e s \<longleftrightarrow> distinct (map ad_tag (es_arrived s)) \<and>
     concat (map amqp_of (treated c e s)) = es_requests s @ settling (es_cons s) \<and>
     concat (map placed_of (treated c e s)) = es_dispatched s @ placing (es_cons s)"

text \<open>The consumer and the pool: one \<open>Dispatch\<close> at a time, the shutdown after \<open>Consume\<close>, one context.\<close>

definition coupled :: "engine_sys \<Rightarrow> bool" where
  "coupled s \<longleftrightarrow>
     (es_cons s \<noteq> CDispatching \<longrightarrow> ps_pick (es_pool s) = PIdle \<and> no_dispatch (es_pool s)) \<and>
     (ps_shut (es_pool s) \<noteq> ShIdle \<longrightarrow> (\<exists>err. es_cons s = CReturned err)) \<and>
     (ps_shut (es_pool s) = ShIdle \<longrightarrow> unclosed (es_pool s)) \<and>
     (\<forall>w \<in> set (ps_ws (es_pool s)). s_ctx w = es_ctx s) \<and>
     pool_handed (es_pool s) = mset (map d_tag (es_dispatched s)) \<and>
     (refused_tags (es_pool s) \<noteq> {#} \<longrightarrow> es_ctx s)"

definition einv :: "('d, 'm) protolib \<Rightarrow> engine \<Rightarrow> config \<Rightarrow> int \<Rightarrow> int \<Rightarrow> engine_sys \<Rightarrow> bool" where
  "einv c e cfg n capacity s \<longleftrightarrow> pool_reachable cfg n capacity (es_pool s) \<and> coupled s \<and> consumer_ok c e s"

lemma start_einv: "einv c e cfg n capacity (start_engine cfg n capacity)"
  by (auto simp: einv_def coupled_def consumer_ok_def treated_def start_engine_def pool_reachable_def start_pool_def
      no_dispatch_def unclosed_def pool_handed_def refused_tags_def handed_def init_sys_def newWorker_def comp_def)

lemma estep_pool:
  assumes "estep c e s t" "pool_reachable cfg n capacity (es_pool s)" "coupled s"
  shows "pool_reachable cfg n capacity (es_pool t)"
proof -
  have "es_pool t = es_pool s \<or> pstep (es_pool s) (es_pool t)"
    using assms(1)
    by (cases rule: estep.cases)
      (use assms(3) in \<open>auto simp: coupled_def pool_own_def cancel_pool_def intro: pstep.cancel pstep.pick_first pstep.shutdown\<close>)
  then show ?thesis
    using assms(2) by (auto simp: pool_reachable_def intro: rtranclp.rtrancl_into_rtrancl)
qed

text \<open>What a delivery comes to keeps its tag.\<close>

fun request_tag :: "request \<Rightarrow> nat" where
  "request_tag (ReqAck tag m) = tag"
| "request_tag (ReqNack tag m r) = tag"
| "request_tag _ = 0"

lemma effect_cases:
  obtains (settled) r where "effect_of e (dispatch c d) = Amqp r" "r \<in> {ack_request (ad_tag d), nack_request (ad_tag d)}"
  | (placed) m where "effect_of e (dispatch c d) = DispatchToPool m" "d_tag m = ad_tag d"
  using dispatch_treats [of c e d]
  by (auto simp: treats_def ack_request_def nack_request_def split: if_splits)

lemma estep_consumer_ok:
  assumes "estep c e s t" "consumer_ok c e s"
  shows "consumer_ok c e t"
  using assms(1)
  by (cases rule: estep.cases) (use assms(2) in \<open>auto simp: consumer_ok_def treated_def new_tag_def\<close>)

lemma unclosed_ctx: "unclosed p \<Longrightarrow> unclosed (cancel_pool p)"
  by (auto simp: unclosed_def cancel_pool_def)

lemma cancel_pool_frame [simp]:
  "ps_pick (cancel_pool p) = ps_pick p" "ps_shut (cancel_pool p) = ps_shut p"
  "no_dispatch (cancel_pool p) = no_dispatch p" "pool_handed (cancel_pool p) = pool_handed p"
  "refused_tags (cancel_pool p) = refused_tags p"
  by (simp_all add: cancel_pool_def no_dispatch_def pool_handed_def refused_tags_def comp_def)

lemma shut_begun: "pstep p q \<Longrightarrow> ps_shut q = ShIdle \<Longrightarrow> ps_shut p = ShIdle"
  by (cases rule: pstep.cases) auto

lemma pool_works_coupled:
  assumes "pool_own (es_pool s) p" "coupled s" "scan_ok (es_pool s)"
  shows "coupled (s\<lparr>es_pool := p\<rparr>)"
proof -
  have "es_cons s \<noteq> CDispatching \<longrightarrow> ps_pick p = PIdle \<and> no_dispatch p"
    using idle_stays [OF assms(1)] assms(1,2) by (auto simp: coupled_def pool_own_def)
  moreover have "\<forall>w \<in> set (ps_ws p). s_ctx w = es_ctx s"
  proof -
    have "set (map s_ctx (ps_ws p)) = set (map s_ctx (ps_ws (es_pool s)))"
      using assms(1) by (simp add: pool_own_def del: set_map)
    then show ?thesis
      using assms(2) by (auto simp: coupled_def)
  qed
  moreover have "refused_tags p \<noteq> {#} \<longrightarrow> es_ctx s"
  proof (cases "refused_tags p = refused_tags (es_pool s)")
    case False
    then obtain w where w: "w \<in> set (ps_ws (es_pool s))" "s_disp w \<noteq> DIdle" "w_closing (s_w w) \<or> s_ctx w"
      using pool_own_refused [OF assms(1,3)] by blast
    then have "es_cons s = CDispatching"
      using assms(2) by (auto simp: coupled_def no_dispatch_def)
    then have "unclosed (es_pool s)"
      using assms(2) by (auto simp: coupled_def)
    then show ?thesis
      using w(1,3) assms(2) by (auto simp: unclosed_def coupled_def)
  qed (use assms(2) in \<open>simp add: coupled_def\<close>)
  moreover have "ps_shut p = ShIdle \<longleftrightarrow> ps_shut (es_pool s) = ShIdle"
    using assms(1) shut_begun [of "es_pool s" p] by (auto simp: pool_own_def)
  ultimately show ?thesis
    using assms pool_own_handed [OF assms(1,3)] unclosed_stays [OF assms(1)] by (auto simp: coupled_def)
qed

lemma estep_coupled:
  assumes "estep c e s t" "coupled s" "scan_ok (es_pool s)"
  shows "coupled t"
  using assms(1)
proof (cases rule: estep.cases)
  case (place m n)
  then show ?thesis
    using assms(2) by (auto simp: coupled_def unclosed_def pool_handed_def refused_tags_def)
next
  case (pool_works p)
  then show ?thesis
    using pool_works_coupled assms(2,3) by simp
next
  case cancelled
  then show ?thesis
    using assms(2) unclosed_ctx by (auto simp: coupled_def) (auto simp: cancel_pool_def)
next
  case (drain err)
  then show ?thesis
    using assms(2) by (auto simp: coupled_def no_dispatch_def pool_handed_def refused_tags_def)
qed (use assms(2) in \<open>simp_all add: coupled_def\<close>)

interpretation em: machine "start_engine cfg n capacity" "estep c e" "\<lambda>_. True" "einv c e cfg n capacity"
  for c e cfg n capacity
proof unfold_locales
  show "einv c e cfg n capacity (start_engine cfg n capacity)"
    by (rule start_einv)
next
  fix s t
  assume step: "estep c e s t" and inv: "einv c e cfg n capacity s"
  then have "scan_ok (es_pool s)"
    using pool_reachable_inv by (auto simp: einv_def pool_inv_def)
  then show "einv c e cfg n capacity t"
    using step inv estep_pool estep_coupled estep_consumer_ok unfolding einv_def by blast
qed simp

lemma engine_reachable_inv: "engine_reachable c e cfg n capacity s \<Longrightarrow> einv c e cfg n capacity s"
  unfolding engine_reachable_def by (rule em.reach_inv) simp_all

end
