(* ===== verification/Engine_Exec.thy ===== *)
theory Engine_Exec
  imports Engine_Machine
begin

text \<open>
  The running engine as a function of a schedule: \<open>efire\<close> performs the step an event names, given what a delivery comes
  to, or \<open>None\<close> when it is not enabled. \<open>estep_iff_efire\<close> shows that it performs exactly the steps of \<open>estep\<close>. The
  example at the end is a run with two workers that is cancelled and drained.
\<close>

datatype engine_event =
    VReceive amqp_delivery
  | VSettle
  | VPlace
  | VPlaced
  | VConsumeCancelled
  | VConsumeClosed
  | VPool pool_event
  | VCancel
  | VDrain

definition eguard :: "bool \<Rightarrow> engine_sys \<Rightarrow> engine_sys option" where
  "eguard b s = (if b then Some s else None)"

lemma eguard_Some [simp]: "eguard b s = Some t \<longleftrightarrow> b \<and> t = s"
  by (auto simp: eguard_def)

definition keeps_own :: "pool_sys \<Rightarrow> pool_sys \<Rightarrow> bool" where
  "keeps_own p q \<longleftrightarrow> (ps_pick p = PIdle \<longrightarrow> ps_pick q = PIdle) \<and> (ps_shut p = ShIdle \<longrightarrow> ps_shut q = ShIdle) \<and>
     map s_ctx (ps_ws q) = map s_ctx (ps_ws p)"

fun fire_receive :: "amqp_delivery \<Rightarrow> effect \<Rightarrow> engine_sys \<Rightarrow> engine_sys option" where
  "fire_receive d (Amqp r) s =
     eguard (es_cons s = CSelect \<and> new_tag d s) (s\<lparr>es_cons := CSettling r, es_arrived := es_arrived s @ [d]\<rparr>)"
| "fire_receive d (DispatchToPool m) s =
     eguard (es_cons s = CSelect \<and> new_tag d s) (s\<lparr>es_cons := CPlacing m, es_arrived := es_arrived s @ [d]\<rparr>)"
| "fire_receive d eff s = None"

fun fire_consumer :: "engine_event \<Rightarrow> consumer_pc \<Rightarrow> engine_sys \<Rightarrow> engine_sys option" where
  "fire_consumer VSettle (CSettling r) s = Some (s\<lparr>es_cons := CSelect, es_requests := es_requests s @ [r]\<rparr>)"
| "fire_consumer VPlace (CPlacing m) s =
     (let n = load_of (ps_ws (es_pool s) ! 0)
      in Some (s\<lparr>es_cons := CDispatching, es_pool := (es_pool s)\<lparr>ps_pick := PScan m (0, n) [n]\<rparr>,
           es_dispatched := es_dispatched s @ [m]\<rparr>))"
| "fire_consumer VPlaced CDispatching s =
     eguard (ps_pick (es_pool s) = PIdle \<and> no_dispatch (es_pool s)) (s\<lparr>es_cons := CSelect\<rparr>)"
| "fire_consumer VConsumeCancelled CSelect s = eguard (es_ctx s) (s\<lparr>es_cons := CReturned ConsumeCancelled\<rparr>)"
| "fire_consumer VConsumeClosed CSelect s = Some (s\<lparr>es_cons := CReturned ConsumeClosed\<rparr>)"
| "fire_consumer VDrain (CReturned err) s =
     eguard (ps_shut (es_pool s) = ShIdle) (s\<lparr>es_pool := (es_pool s)\<lparr>ps_shut := ShClose 0\<rparr>\<rparr>)"
| "fire_consumer _ _ s = None"

fun efire :: "(amqp_delivery \<Rightarrow> effect) \<Rightarrow> engine_event \<Rightarrow> engine_sys \<Rightarrow> engine_sys option" where
  "efire treat (VReceive d) s = fire_receive d (treat d) s"
| "efire treat (VPool ev) s =
     (case pfire ev (es_pool s) of None \<Rightarrow> None | Some p \<Rightarrow> eguard (keeps_own (es_pool s) p) (s\<lparr>es_pool := p\<rparr>))"
| "efire treat VCancel s = Some (s\<lparr>es_ctx := True, es_pool := cancel_pool (es_pool s)\<rparr>)"
| "efire treat ev s = fire_consumer ev (es_cons s) s"

fun efire_all :: "(amqp_delivery \<Rightarrow> effect) \<Rightarrow> engine_event list \<Rightarrow> engine_sys \<Rightarrow> engine_sys option" where
  "efire_all treat [] s = Some s"
| "efire_all treat (ev # evs) s = (case efire treat ev s of None \<Rightarrow> None | Some t \<Rightarrow> efire_all treat evs t)"

section \<open>The function and the relation agree\<close>

lemma pool_own_fire: "pool_own p q \<longleftrightarrow> (\<exists>ev. pfire ev p = Some q) \<and> keeps_own p q"
  by (auto simp: pool_own_def keeps_own_def pstep_iff_pfire)

fun agrees :: "('d, 'm) protolib \<Rightarrow> engine \<Rightarrow> (amqp_delivery \<Rightarrow> effect) \<Rightarrow> engine_event \<Rightarrow> bool" where
  "agrees c e treat (VReceive d) \<longleftrightarrow> treat d = effect_of e (dispatch c d)"
| "agrees c e treat _ \<longleftrightarrow> True"

lemma fire_receive_sound:
  "fire_receive d eff s = Some t \<Longrightarrow> eff = effect_of e (dispatch c d) \<Longrightarrow> estep c e s t"
  by (cases "(d, eff, s)" rule: fire_receive.cases) (auto intro: receive_settles receive_dispatches)

lemma fire_consumer_sound: "fire_consumer ev (es_cons s) s = Some t \<Longrightarrow> estep c e s t"
  by (cases "(ev, es_cons s, s)" rule: fire_consumer.cases)
    (auto simp: Let_def intro: settle_now place placed consume_cancelled consume_closed drain)

lemma efire_sound: "efire treat ev s = Some t \<Longrightarrow> agrees c e treat ev \<Longrightarrow> estep c e s t"
proof (cases ev)
  case (VPool pev)
  assume "efire treat ev s = Some t"
  then obtain p where "pfire pev (es_pool s) = Some p" "keeps_own (es_pool s) p" "t = s\<lparr>es_pool := p\<rparr>"
    using VPool by (auto split: option.splits)
  then show ?thesis
    using pool_works pool_own_fire by blast
qed (auto intro: fire_receive_sound fire_consumer_sound cancelled)

lemma efire_complete:
  assumes "estep c e s t"
  shows "\<exists>ev. efire (\<lambda>d. effect_of e (dispatch c d)) ev s = Some t"
  using assms
proof (cases rule: estep.cases)
  case (receive_settles d r)
  then show ?thesis by (intro exI [of _ "VReceive d"]) simp
next
  case (receive_dispatches d m)
  then show ?thesis by (intro exI [of _ "VReceive d"]) simp
next
  case (settle_now r)
  then show ?thesis by (intro exI [of _ VSettle]) simp
next
  case (place m n)
  then show ?thesis by (intro exI [of _ VPlace]) (simp add: Let_def)
next
  case placed
  then show ?thesis by (intro exI [of _ VPlaced]) simp
next
  case consume_cancelled
  then show ?thesis by (intro exI [of _ VConsumeCancelled]) simp
next
  case consume_closed
  then show ?thesis by (intro exI [of _ VConsumeClosed]) simp
next
  case (pool_works p)
  then obtain pev where "pfire pev (es_pool s) = Some p" "keeps_own (es_pool s) p"
    by (auto simp: pool_own_fire)
  with pool_works show ?thesis by (intro exI [of _ "VPool pev"]) simp
next
  case cancelled
  then show ?thesis by (intro exI [of _ VCancel]) simp
next
  case (drain err)
  then show ?thesis by (intro exI [of _ VDrain]) simp
qed

lemma estep_iff_efire: "estep c e s t \<longleftrightarrow> (\<exists>ev. efire (\<lambda>d. effect_of e (dispatch c d)) ev s = Some t)"
proof -
  have "agrees c e (\<lambda>d. effect_of e (dispatch c d)) ev" for ev
    by (cases ev) simp_all
  then show ?thesis
    using efire_sound efire_complete by blast
qed

lemma engine_reachable_by:
  assumes "efire_all treat evs (start_engine cfg n capacity) = Some s" "list_all (agrees c e treat) evs"
  shows "engine_reachable c e cfg n capacity s"
proof -
  have "efire_all treat evs s = Some t \<Longrightarrow> list_all (agrees c e treat) evs \<Longrightarrow> (estep c e)\<^sup>*\<^sup>* s t" for s t
    by (induction evs arbitrary: s)
      (auto split: option.splits intro: efire_sound converse_rtranclp_into_rtranclp)
  then show ?thesis
    using assms by (simp add: engine_reachable_def)
qed

section \<open>A run of the engine\<close>

text \<open>A message the engine cannot unwrap, what the four arrivals of the run come to, and the run, for any body of the other
  three: 7 is done and acked, 9 cannot be unwrapped, 8 is in flight when its process is killed, 10 arrives as
  the run is cancelled.\<close>

definition ex_arriving :: "bytes \<Rightarrow> nat \<Rightarrow> amqp_delivery" where
  "ex_arriving body tag = \<lparr>ad_tag = tag, ad_routing_key = ''v3.asset.ip.m-1'', ad_headers = None, ad_body = body\<rparr>"

definition ex_treat :: "amqp_delivery \<Rightarrow> effect" where
  "ex_treat d = (if ad_tag d = 9 then Amqp (nack_request 9) else DispatchToPool (ex_msg (ad_tag d)))"

definition ex_take :: "bytes \<Rightarrow> nat \<Rightarrow> nat \<Rightarrow> engine_event list" where
  "ex_take body tag i = [VReceive (ex_arriving body tag), VPlace, VPool PPickNext, VPool PPickDone, VPool (PWork i ERegister),
     VPool (PWork i ESent), VPlaced]"

definition ex_engine_run :: "bytes \<Rightarrow> engine_event list" where
  "ex_engine_run body =
     map VPool ex_both_up @ ex_take body 7 0 @ [VReceive (ex_arriving [] 9), VSettle] @ ex_take body 8 1 @
     [VPool (PWork 0 (ERead (HDone (ex_done 1)))), VPool (PWork 0 ESettled),
      VReceive (ex_arriving body 10), VPlace, VPool PPickNext, VCancel, VPool PPickDone, VPool (PWork 0 ERefuse), VPlaced,
      VConsumeCancelled, VDrain] @
     map VPool
       [PClose, PWork 0 ECloseStop, PCloseNext, PClose, PWork 1 ECloseStop, PCloseNext, PCloseNext,
        PWork 0 (EExit 0), PWork 0 EReadEnd, PWork 0 EEndedStop, PWork 0 EWaited, PWork 0 EStaleEnd, PWaited,
        PGraceOver, PKill, PWork 1 EReadEnd, PWork 1 EEndedStop, PWork 1 EWaited, PWork 1 (EStale 0),
        PWork 1 EStaleEnd, PWaited, PWaited]"

definition ex_engine :: "bytes \<Rightarrow> engine_sys" where
  "ex_engine body = the (efire_all ex_treat (ex_engine_run body) (start_engine ex_cfg 2 1))"

lemma ex_garbage_nacked: "effect_of e (dispatch ex_lib (ex_arriving [] 9)) = Amqp (nack_request 9)"
  by code_simp

lemma ex_engine_runs: "efire_all ex_treat (ex_engine_run body) (start_engine ex_cfg 2 1) \<noteq> None"
  by code_simp

lemma ex_engine_returned: "ps_shut (es_pool (ex_engine body)) = ShReturned"
  by code_simp

lemma ex_engine_given: "map (\<lambda>s. length (s_given s)) (ps_ws (es_pool (ex_engine body))) = [1, 1]"
  by code_simp

lemma ex_engine_arrived: "map ad_tag (es_arrived (ex_engine body)) = [7, 9, 8, 10]"
  by code_simp

lemma ex_engine_agrees: "list_all (agrees ex_lib (engine_of ex_manifest ex_settings) ex_treat) (ex_engine_run ex_envelope)"
proof -
  have same: "ex_arriving ex_envelope tag = ex_arrival tag" for tag
    by (simp add: ex_arriving_def ex_arrival_def)
  show ?thesis
    using ex_arrival_dispatched ex_garbage_nacked
    by (auto simp: ex_engine_run_def ex_take_def list_all_iff same ex_treat_def [of "ex_arriving [] 9"])
      (simp_all add: ex_treat_def ex_arrival_def ex_arriving_def)
qed

lemma ex_engine_reachable:
  "engine_reachable ex_lib (engine_of ex_manifest ex_settings) ex_cfg 2 1 (ex_engine ex_envelope)"
proof -
  obtain s where "efire_all ex_treat (ex_engine_run ex_envelope) (start_engine ex_cfg 2 1) = Some s"
    using ex_engine_runs by blast
  then show ?thesis
    using engine_reachable_by ex_engine_agrees by (metis ex_engine_def option.sel)
qed

text \<open>The same run up to the cancellation: one delivery settled, one nacked, one in flight, one being placed.\<close>

definition ex_cancelled :: "bytes \<Rightarrow> engine_sys" where
  "ex_cancelled body = the (efire_all ex_treat (take 24 (ex_engine_run body)) (start_engine ex_cfg 2 1))"

lemma ex_cancelled_runs: "efire_all ex_treat (take 24 (ex_engine_run body)) (start_engine ex_cfg 2 1) \<noteq> None"
  by code_simp

lemma ex_cancelled_given: "map (\<lambda>s. length (s_given s)) (ps_ws (es_pool (ex_cancelled body))) = [1, 1]"
  by code_simp

lemma ex_cancelled_ctx: "es_ctx (ex_cancelled body)"
  by code_simp

lemma ex_cancelled_arrived: "map ad_tag (es_arrived (ex_cancelled body)) = [7, 9, 8, 10]"
  by code_simp

lemma ex_cancelled_reachable:
  "engine_reachable ex_lib (engine_of ex_manifest ex_settings) ex_cfg 2 1 (ex_cancelled ex_envelope)"
proof -
  obtain s where "efire_all ex_treat (take 24 (ex_engine_run ex_envelope)) (start_engine ex_cfg 2 1) = Some s"
    using ex_cancelled_runs by blast
  moreover have "list_all (agrees ex_lib (engine_of ex_manifest ex_settings) ex_treat) (take 24 (ex_engine_run ex_envelope))"
    using ex_engine_agrees by (auto simp: list_all_iff dest: in_set_takeD)
  ultimately show ?thesis
    using engine_reachable_by by (metis ex_cancelled_def option.sel)
qed

end
