(* ===== verification/Engine_System.thy ===== *)
theory Engine_System
  imports Engine_Exec
begin

text \<open>
  What the running engine promises the broker, over every reachable state of \<open>Engine_Machine\<close>: where each arrived
  delivery is, that none is settled twice, what a returned \<open>Shutdown\<close> leaves, and that the whole engine implements
  a broker's view of it in which a delivery arrives and is settled once.
\<close>

section \<open>The requests of the engine\<close>

text \<open>The deliveries a request settles.\<close>

fun settled_by :: "request \<Rightarrow> nat list" where
  "settled_by (ReqAck tag multiple) = [tag]"
| "settled_by (ReqNack tag multiple requeue) = [tag]"
| "settled_by _ = []"

text \<open>The requests the pool's workers make when they call the callbacks of their messages.\<close>

definition worker_requests :: "sys \<Rightarrow> request list" where
  "worker_requests s = map (\<lambda>(i, tag, c). settle_request tag (verdict_of c)) (s_settled s)"

definition pool_requests :: "pool_sys \<Rightarrow> request list" where
  "pool_requests ps = concat (map worker_requests (ps_ws ps))"

definition system_requests :: "engine_sys \<Rightarrow> request list" where
  "system_requests s = es_requests s @ pool_requests (es_pool s)"

abbreviation system_settled :: "engine_sys \<Rightarrow> nat list" where
  "system_settled s \<equiv> concat (map settled_by (system_requests s))"

lemma settled_by_settle_request: "settled_by (settle_request tag v) = [tag]"
  by (cases v) (simp_all add: ack_request_def nack_request_def requeue_request_def)

lemma worker_requests_tags: "concat (map settled_by (worker_requests s)) = settled_tags s"
proof -
  have "concat (map settled_by (map (\<lambda>(i, tag, c). settle_request tag (verdict_of c)) xs)) = map (fst \<circ> snd) xs" for xs
    by (induction xs) (auto simp: settled_by_settle_request)
  then show ?thesis
    by (simp add: worker_requests_def)
qed

lemma pool_requests_tags: "concat (map settled_by (pool_requests ps)) = concat (map settled_tags (ps_ws ps))"
proof -
  have "concat (map settled_by (concat (map worker_requests xs))) = concat (map settled_tags xs)" for xs
    by (induction xs) (simp_all add: worker_requests_tags)
  then show ?thesis
    by (simp add: pool_requests_def)
qed

section \<open>Where a delivery is\<close>

text \<open>The tags in the consumer's hands, those a worker has, and all that the engine has not settled yet.\<close>

definition consumer_has :: "engine_sys \<Rightarrow> nat multiset" where
  "consumer_has s = mset (concat (map settled_by (settling (es_cons s)))) + mset (map d_tag (placing (es_cons s))) +
     scanned (ps_pick (es_pool s))"

definition worker_has :: "sys \<Rightarrow> nat multiset" where
  "worker_has s = waiting (s_disp s) + image_mset snd (Worker_Invariant.held s)"

definition system_has :: "engine_sys \<Rightarrow> nat multiset" where
  "system_has s = consumer_has s + sum_list (map worker_has (ps_ws (es_pool s)))"

definition few_given :: "pool_sys \<Rightarrow> bool" where
  "few_given p \<longleftrightarrow> (\<forall>s \<in> set (ps_ws p). length (s_given s) < 2 ^ 64)"

lemma worker_account:
  assumes "reachable i cfg capacity s" "length (s_given s) < 2 ^ 64"
  shows "handed s = worker_has s + mset (settled_tags s) + mset (s_refused s)"
proof -
  have "conserved s"
    using reachable_few [OF assms] by (simp add: winv_def)
  then have "image_mset snd (image_mset given_entry (mset (s_given s))) =
      image_mset snd (Worker_Invariant.held s) + image_mset snd (image_mset settled_entry (mset (s_settled s)))"
    by (simp add: conserved_def)
  moreover have "image_mset snd (image_mset given_entry (mset xs)) = image_mset (d_tag \<circ> snd) (mset xs)" for xs
    by (induction xs) auto
  moreover have "image_mset snd (image_mset settled_entry (mset ys)) = mset (map (fst \<circ> snd) ys)" for ys
    by (induction ys) auto
  ultimately show ?thesis
    by (simp add: handed_def worker_has_def ac_simps)
qed

lemma pool_account:
  assumes "pool_reachable cfg n capacity p" "few_given p"
  shows "pool_handed p = scanned (ps_pick p) + sum_list (map worker_has (ps_ws p)) +
    mset (concat (map settled_tags (ps_ws p))) + refused_tags p"
proof -
  have each: "\<forall>s \<in> set (ps_ws p). handed s = worker_has s + mset (settled_tags s) + mset (s_refused s)"
    using pool_workers [OF assms(1)] worker_account assms(2) unfolding few_given_def by metis
  have "\<forall>s \<in> set ws. handed s = worker_has s + mset (settled_tags s) + mset (s_refused s) \<Longrightarrow>
      sum_list (map handed ws) = sum_list (map worker_has ws) + mset (concat (map settled_tags ws)) +
        sum_list (map (\<lambda>s. mset (s_refused s)) ws)" for ws
    by (induction ws) (simp_all add: ac_simps)
  then show ?thesis
    using each by (simp add: pool_handed_def refused_tags_def ac_simps)
qed

lemma treated_account:
  "mset (map ad_tag ds) =
    mset (concat (map settled_by (concat (map amqp_of (map (\<lambda>d. effect_of e (dispatch c d)) ds))))) +
    mset (map d_tag (concat (map placed_of (map (\<lambda>d. effect_of e (dispatch c d)) ds))))"
proof (induction ds)
  case (Cons d ds)
  show ?case
    using Cons.IH by (cases rule: effect_cases [of e c d]) (auto simp: ack_request_def nack_request_def)
qed simp

lemma engine_account:
  assumes "engine_reachable c e cfg n capacity s" "few_given (es_pool s)"
  shows "mset (map ad_tag (es_arrived s)) = system_has s + mset (system_settled s) + refused_tags (es_pool s)"
proof -
  have inv: "pool_reachable cfg n capacity (es_pool s)" "coupled s" "consumer_ok c e s"
    using engine_reachable_inv [OF assms(1)] by (simp_all add: einv_def)
  have "mset (map ad_tag (es_arrived s)) =
      mset (concat (map settled_by (es_requests s @ settling (es_cons s)))) +
      mset (map d_tag (es_dispatched s @ placing (es_cons s)))"
    using treated_account [of "es_arrived s" e c] inv(3) by (simp add: consumer_ok_def treated_def del: map_map)
  moreover have "mset (map d_tag (es_dispatched s)) = scanned (ps_pick (es_pool s)) +
      sum_list (map worker_has (ps_ws (es_pool s))) + mset (concat (map settled_tags (ps_ws (es_pool s)))) + refused_tags (es_pool s)"
    using inv(2) pool_account [OF inv(1) assms(2)] by (simp add: coupled_def)
  ultimately show ?thesis
    by (simp add: system_has_def consumer_has_def system_requests_def pool_requests_tags ac_simps)
qed

section \<open>One request at a time\<close>

text \<open>What a step does to the requests: nothing, or one more somewhere in the list.\<close>

definition adds_request :: "request list \<Rightarrow> request list \<Rightarrow> request \<Rightarrow> bool" where
  "adds_request xs ys r \<longleftrightarrow> (\<exists>us vs. xs = us @ vs \<and> ys = us @ r # vs)"

lemma adds_last: "adds_request xs (xs @ [r]) r"
  unfolding adds_request_def by (intro exI [of _ xs] exI [of _ "[]"]) simp

lemma adds_within: "adds_request xs ys r \<Longrightarrow> adds_request (us @ xs @ vs) (us @ ys @ vs) r"
  unfolding adds_request_def by (metis append.assoc append_Cons)

lemma adds_concat:
  assumes "i < length xs" "adds_request (f (xs ! i)) (f x) r"
  shows "adds_request (concat (map f xs)) (concat (map f (xs[i := x]))) r"
proof -
  have "map f xs = map f (take i xs) @ f (xs ! i) # map f (drop (Suc i) xs)"
    by (subst id_take_nth_drop [OF assms(1)]) simp
  moreover have "map f (xs[i := x]) = map f (take i xs) @ f x # map f (drop (Suc i) xs)"
    using assms(1) by (simp add: upd_conv_take_nth_drop)
  ultimately show ?thesis
    using adds_within [OF assms(2), of "concat (map f (take i xs))" "concat (map f (drop (Suc i) xs))"] by simp
qed

lemma worker_requests_step:
  assumes "wstep s t"
  shows "worker_requests t = worker_requests s \<or>
    (\<exists>tag v. adds_request (worker_requests s) (worker_requests t) (settle_request tag v))"
  using step_settled [OF assms] adds_last by (fastforce simp: worker_requests_def split: prod.splits)

lemma worker_requests_frame [simp]:
  "worker_requests (s_ctx_update f s) = worker_requests s"
  "worker_requests (s_disp_update g s) = worker_requests s"
  "worker_requests (s_closer_update h (s_w_update k s)) = worker_requests s"
  by (simp_all add: worker_requests_def)

lemma pool_requests_upd:
  assumes "i < length (ps_ws p)" "wstep (ps_ws p ! i) s" "ps_ws q = (ps_ws p)[i := s]"
  shows "pool_requests q = pool_requests p \<or>
    (\<exists>tag v. adds_request (pool_requests p) (pool_requests q) (settle_request tag v))"
  using worker_requests_step [OF assms(2)] adds_concat [OF assms(1), of worker_requests s]
  by (auto simp: pool_requests_def assms(3) map_update_same)

lemma pool_requests_step:
  assumes "pstep p q"
  shows "pool_requests q = pool_requests p \<or>
    (\<exists>tag v. adds_request (pool_requests p) (pool_requests q) (settle_request tag v))"
  using assms
proof (cases rule: pstep.cases)
  case (work i s)
  then show ?thesis
    using pool_requests_upd [of i p s q] by (simp add: own_step_def)
next
  case (wait_kill i s)
  then show ?thesis
    using pool_requests_upd [of i p s q] by simp
next
  case cancel
  then show ?thesis
    by (simp add: pool_requests_def comp_def)
qed (auto simp: pool_requests_def map_update_same)

lemma consumer_request:
  assumes "consumer_ok c e s" "es_cons s = CSettling r"
  shows "\<exists>tag v. r = settle_request tag v"
proof -
  have "r \<in> set (concat (map amqp_of (treated c e s)))"
    using assms by (simp add: consumer_ok_def)
  then obtain d where "r \<in> set (amqp_of (effect_of e (dispatch c d)))"
    by (auto simp: treated_def)
  then have "r = settle_request (ad_tag d) Ack \<or> r = settle_request (ad_tag d) Nack"
    by (cases rule: effect_cases [of e c d]) auto
  then show ?thesis
    by blast
qed

lemma engine_requests_step:
  assumes "estep c e s t" "coupled s" "consumer_ok c e s"
  shows "system_requests t = system_requests s \<or>
    es_arrived t = es_arrived s \<and> (\<exists>tag v. adds_request (system_requests s) (system_requests t) (settle_request tag v))"
  using assms(1)
proof (cases rule: estep.cases)
  case (settle_now r)
  have "adds_request (es_requests s) (es_requests t) r"
    using adds_last settle_now by simp
  then have "adds_request (system_requests s) (system_requests t) r"
    using adds_within [of "es_requests s" "es_requests t" r "[]" "pool_requests (es_pool s)"] settle_now
    by (simp add: system_requests_def)
  then show ?thesis
    using consumer_request [OF assms(3) settle_now(2)] settle_now by auto
next
  case (pool_works p)
  then have "pool_requests p = pool_requests (es_pool s) \<or>
      (\<exists>tag v. adds_request (pool_requests (es_pool s)) (pool_requests p) (settle_request tag v))"
    by (intro pool_requests_step) (simp add: pool_own_def)
  then show ?thesis
    using pool_works adds_within [of "pool_requests (es_pool s)" "pool_requests p" _ "es_requests s" "[]"]
    by (auto simp: system_requests_def)
qed (auto simp: system_requests_def pool_requests_def cancel_pool_def comp_def)

lemma engine_arrived_step:
  "estep c e s t \<Longrightarrow> es_arrived t = es_arrived s \<or> (\<exists>d. new_tag d s \<and> es_arrived t = es_arrived s @ [d])"
  by (cases rule: estep.cases) auto

section \<open>The broker's view\<close>

text \<open>For the broker a delivery has not been sent, is not settled yet, or was settled by one request that names it
  alone; what has been settled never changes.\<close>

type_synonym broker = "nat \<Rightarrow> request option option"

definition single :: "nat \<Rightarrow> request \<Rightarrow> bool" where
  "single tag r \<longleftrightarrow> r \<in> {ReqAck tag False, ReqNack tag False False, ReqNack tag False True}"

lemma single_settle_request: "single tag (settle_request tag v)"
  by (cases v) (simp_all add: single_def ack_request_def nack_request_def requeue_request_def)

inductive bstep :: "broker \<Rightarrow> broker \<Rightarrow> bool" where
  arrives: "b tag = None \<Longrightarrow> bstep b (b(tag := Some None))"
| settles: "b tag = Some None \<Longrightarrow> single tag r \<Longrightarrow> bstep b (b(tag := Some (Some r)))"

text \<open>The broker's view of the engine: the first request that names a delivery that has arrived.\<close>

definition broker_of :: "engine_sys \<Rightarrow> broker" where
  "broker_of s tag =
     (if tag \<in> ad_tag ` set (es_arrived s) then Some (find (\<lambda>r. settled_by r = [tag]) (system_requests s)) else None)"

lemma find_append: "find P (xs @ ys) = (case find P xs of None \<Rightarrow> find P ys | Some x \<Rightarrow> Some x)"
  by (induction xs) simp_all

lemma find_unsettled: "tag \<notin> set (concat (map settled_by rs)) \<Longrightarrow> find (\<lambda>r. settled_by r = [tag]) rs = None"
  by (induction rs) auto

lemma find_adds:
  assumes "adds_request xs ys r"
  shows "\<not> P r \<Longrightarrow> find P ys = find P xs" "P r \<Longrightarrow> find P xs = None \<Longrightarrow> find P ys = Some r"
  using assms by (auto simp: adds_request_def find_append split: option.splits)

lemma adds_settled:
  assumes "adds_request xs ys r"
  shows "mset (concat (map settled_by ys)) = mset (settled_by r) + mset (concat (map settled_by xs))"
  using assms by (auto simp: adds_request_def)

lemma refused_tags_list: "refused_tags p = mset (concat (map s_refused (ps_ws p)))"
proof -
  have "sum_list (map (\<lambda>s. mset (s_refused s)) ws) = mset (concat (map s_refused ws))" for ws
    by (induction ws) simp_all
  then show ?thesis
    by (simp add: refused_tags_def)
qed

lemma engine_settled:
  assumes "engine_reachable c e cfg n capacity s" "few_given (es_pool s)"
  shows "distinct (system_settled s)" "set (system_settled s) \<subseteq> ad_tag ` set (es_arrived s)"
    "set_mset (refused_tags (es_pool s)) \<inter> set (system_settled s) = {}"
proof -
  have arrived: "distinct (map ad_tag (es_arrived s))"
    using engine_reachable_inv [OF assms(1)] by (simp add: einv_def consumer_ok_def)
  note sum = engine_account [OF assms]
  have sub: "mset (system_settled s) \<subseteq># mset (map ad_tag (es_arrived s))"
    unfolding sum by (simp add: subset_mset.add_increasing subset_mset.add_increasing2)
  show "distinct (system_settled s)"
    by (rule distinct_submset [OF arrived sub])
  show "set (system_settled s) \<subseteq> ad_tag ` set (es_arrived s)"
    using set_mset_mono [OF sub] by (simp only: set_mset_mset set_map)
  have "mset (system_settled s @ concat (map s_refused (ps_ws (es_pool s)))) \<subseteq># mset (map ad_tag (es_arrived s))"
    unfolding sum by (simp add: refused_tags_list)
  then have "distinct (system_settled s @ concat (map s_refused (ps_ws (es_pool s))))"
    by (rule distinct_submset [OF arrived])
  then show "set_mset (refused_tags (es_pool s)) \<inter> set (system_settled s) = {}"
    unfolding refused_tags_list set_mset_mset by (simp only: distinct_append) blast
qed

lemma estep_broker:
  assumes "estep c e s t" "engine_reachable c e cfg n capacity s" "few_given (es_pool s)" "few_given (es_pool t)"
  shows "broker_of t = broker_of s \<or> bstep (broker_of s) (broker_of t)"
proof -
  have inv: "coupled s" "consumer_ok c e s"
    using engine_reachable_inv [OF assms(2)] by (simp_all add: einv_def)
  have next_state: "engine_reachable c e cfg n capacity t"
    using assms(1,2) unfolding engine_reachable_def by (rule rtranclp.rtrancl_into_rtrancl [rotated])
  consider (same) "system_requests t = system_requests s" "es_arrived t = es_arrived s"
    | (arrive) d where "system_requests t = system_requests s" "new_tag d s" "es_arrived t = es_arrived s @ [d]"
    | (settle) tag v where "es_arrived t = es_arrived s"
        "adds_request (system_requests s) (system_requests t) (settle_request tag v)"
    using engine_requests_step [OF assms(1) inv] engine_arrived_step [OF assms(1)] by blast
  then show ?thesis
  proof cases
    case same
    then show ?thesis
      by (simp add: broker_of_def fun_eq_iff)
  next
    case (arrive d)
    have "find (\<lambda>r. settled_by r = [ad_tag d]) (system_requests s) = None"
      using engine_settled(2) [OF assms(2,3)] arrive(2) by (intro find_unsettled) (auto simp only: new_tag_def)
    then have "broker_of t = (broker_of s)(ad_tag d := Some None)"
      using arrive by (auto simp: broker_of_def fun_eq_iff new_tag_def)
    then show ?thesis
      using arrive(2) bstep.arrives [of "broker_of s" "ad_tag d"] by (simp add: broker_of_def new_tag_def)
  next
    case (settle tag v)
    have settled: "mset (system_settled t) = add_mset tag (mset (system_settled s))"
      using adds_settled [OF settle(2)] by (simp add: settled_by_settle_request)
    have "tag \<in> set (system_settled t)"
      using settled by (metis union_single_eq_member set_mset_mset)
    then have arrived: "tag \<in> ad_tag ` set (es_arrived s)"
      using engine_settled(2) [OF next_state assms(4)] settle(1) by auto
    have "distinct (tag # system_settled s)"
      using engine_settled(1) [OF next_state assms(4)] settled by (metis mset.simps(2) mset_eq_imp_distinct_iff)
    then have "find (\<lambda>r. settled_by r = [tag]) (system_requests s) = None"
      by (intro find_unsettled) (simp only: distinct.simps simp_thms)
    then have "broker_of t = (broker_of s)(tag := Some (Some (settle_request tag v)))" "broker_of s tag = Some None"
      using find_adds [OF settle(2)] settle(1) arrived by (auto simp: broker_of_def fun_eq_iff settled_by_settle_request)
    then show ?thesis
      using bstep.settles single_settle_request by metis
  qed
qed

lemma pstep_given:
  assumes "pstep p q"
  shows "length (ps_ws q) = length (ps_ws p) \<and>
    (\<forall>i < length (ps_ws p). length (s_given (ps_ws p ! i)) \<le> length (s_given (ps_ws q ! i)))"
  using assms by (cases rule: pstep.cases) (auto simp: own_step_def nth_update_if intro: step_given)

lemma pstep_few:
  assumes "pstep p q" "few_given q"
  shows "few_given p"
  unfolding few_given_def
proof
  fix s
  assume "s \<in> set (ps_ws p)"
  then obtain i where i: "i < length (ps_ws p)" "s = ps_ws p ! i"
    by (auto simp: in_set_conv_nth)
  then have "length (s_given s) \<le> length (s_given (ps_ws q ! i))" "ps_ws q ! i \<in> set (ps_ws q)"
    using pstep_given [OF assms(1)] by simp_all
  then show "length (s_given s) < 2 ^ 64"
    using assms(2) by (auto simp: few_given_def intro: order_le_less_trans)
qed

lemma estep_few: "estep c e s t \<Longrightarrow> few_given (es_pool t) \<Longrightarrow> few_given (es_pool s)"
  by (erule estep.cases) (auto simp: few_given_def cancel_pool_def pool_own_def dest: pstep_few [unfolded few_given_def])

interpretation eb: machine_plus "start_engine cfg n capacity" "estep c e" "\<lambda>s. few_given (es_pool s)"
  "engine_reachable c e cfg n capacity" "\<lambda>s. bstep\<^sup>*\<^sup>* Map.empty (broker_of s)"
  for c e cfg n capacity
proof unfold_locales
  show "engine_reachable c e cfg n capacity (start_engine cfg n capacity)"
    by (simp add: engine_reachable_def)
next
  show "bstep\<^sup>*\<^sup>* Map.empty (broker_of (start_engine cfg n capacity))"
    by (simp add: broker_of_def [abs_def] start_engine_def)
next
  fix s t
  assume "estep c e s t" "engine_reachable c e cfg n capacity s"
  then show "engine_reachable c e cfg n capacity t"
    unfolding engine_reachable_def by (rule rtranclp.rtrancl_into_rtrancl [rotated])
next
  fix s t
  assume step: "estep c e s t" "few_given (es_pool t)"
  then show few: "few_given (es_pool s)"
    by (rule estep_few)
  assume "engine_reachable c e cfg n capacity s" "bstep\<^sup>*\<^sup>* Map.empty (broker_of s)"
  then show "bstep\<^sup>*\<^sup>* Map.empty (broker_of t)"
    using estep_broker [OF step(1) _ few step(2)] by (metis rtranclp.rtrancl_into_rtrancl)
qed

section \<open>The theorems\<close>

lemma ex_engine_few: "few_given (es_pool (ex_engine body))"
proof -
  have "\<forall>k \<in> set (map (\<lambda>s. length (s_given s)) (ps_ws (es_pool (ex_engine body)))). k = 1"
    by (simp add: ex_engine_given)
  then show ?thesis
    by (auto simp: few_given_def)
qed

lemma ex_engine_refused: "refused_tags (es_pool (ex_engine body)) = {#10#}"
  unfolding refused_tags_def by code_simp

lemma ex_engine_arrived_set: "ad_tag ` set (es_arrived (ex_engine body)) = {7, 9, 8, 10}"
  using arg_cong [OF ex_engine_arrived [of body], of set] by simp

text \<open>C2: every delivery that has arrived is at any moment in one place: in the consumer's hands, being placed, in a
  worker (waiting in \<open>Dispatch\<close>, in flight, or claimed by a goroutine about to settle it), settled by a request,
  or refused; and one is refused only after the run was cancelled.\<close>

theorem engine_conserves_deliveries:
  assumes "engine_reachable c e cfg n capacity s" "few_given (es_pool s)"
  shows "mset (map ad_tag (es_arrived s)) = system_has s + mset (concat (map settled_by (system_requests s))) +
      refused_tags (es_pool s) \<and>
    (refused_tags (es_pool s) \<noteq> {#} \<longrightarrow> es_ctx s)"
  using engine_account [OF assms] engine_reachable_inv [OF assms(1)] by (simp add: einv_def coupled_def)

theorem engine_conserves_deliveries_witness:
  "{#7, 9, 8, 10#} = system_has (ex_engine ex_envelope) +
      mset (concat (map settled_by (system_requests (ex_engine ex_envelope)))) + {#10#} \<and> es_ctx (ex_engine ex_envelope)"
  using engine_conserves_deliveries [OF ex_engine_reachable ex_engine_few]
  unfolding ex_engine_arrived ex_engine_refused by simp

text \<open>C1: the requests of the consumer and of the workers together settle a delivery at most once, only one that has
  arrived, and never one that was refused: that one stays with the broker, for redelivery.\<close>

theorem engine_settles_once:
  assumes "engine_reachable c e cfg n capacity s" "few_given (es_pool s)"
  shows "distinct (concat (map settled_by (system_requests s))) \<and>
    set (concat (map settled_by (system_requests s))) \<subseteq> ad_tag ` set (es_arrived s) \<and>
    set_mset (refused_tags (es_pool s)) \<inter> set (concat (map settled_by (system_requests s))) = {}"
  using engine_settled [OF assms] by blast

theorem engine_settles_once_witness:
  "distinct (concat (map settled_by (system_requests (ex_engine ex_envelope)))) \<and>
    set (concat (map settled_by (system_requests (ex_engine ex_envelope)))) \<subseteq> {7, 9, 8, 10} \<and>
    10 \<notin> set (concat (map settled_by (system_requests (ex_engine ex_envelope))))"
  using engine_settles_once [OF ex_engine_reachable ex_engine_few]
  unfolding ex_engine_arrived_set ex_engine_refused by simp

lemma shutdown_worker_has:
  assumes "pool_reachable cfg n capacity p" "few_given p" "ps_shut p = ShReturned" "no_dispatch p" "s \<in> set (ps_ws p)"
  shows "worker_has s = image_mset snd (timers_hold (s_timers s))"
proof -
  have few: "length (s_given s) < 2 ^ 64" and idle: "s_disp s = DIdle"
    using assms(2,4,5) by (auto simp: few_given_def no_dispatch_def)
  obtain i where i: "i < length (ps_ws p)" "ps_ws p ! i = s" "reachable i cfg (at_least_one capacity) s"
    using pool_workers [OF assms(1,5)] by blast
  have inv: "winv s" "whist s"
    using reachable_few [OF i(3) few] by auto
  have "w_stopped (s_w s)"
    using pool_reachable_inv [OF assms(1)] assms(3) i(1,2) by (auto simp: pool_inv_def waited_stopped_def)
  then show ?thesis
    using stopped_empty [OF inv] idle by (simp add: worker_has_def Worker_Invariant.held_def)
qed

lemma drained_account:
  assumes "engine_reachable c e cfg n capacity s" "few_given (es_pool s)" "ps_shut (es_pool s) = ShReturned"
  shows "mset (map ad_tag (es_arrived s)) = mset (concat (map settled_by (system_requests s))) + refused_tags (es_pool s) +
    sum_list (map (\<lambda>w. image_mset snd (timers_hold (s_timers w))) (ps_ws (es_pool s)))"
proof -
  have inv: "pool_reachable cfg n capacity (es_pool s)" "coupled s"
    using engine_reachable_inv [OF assms(1)] by (simp_all add: einv_def)
  then obtain err where returned: "es_cons s = CReturned err" "no_dispatch (es_pool s)" "ps_pick (es_pool s) = PIdle"
    using assms(3) by (auto simp: coupled_def)
  have has: "map worker_has (ps_ws (es_pool s)) = map (\<lambda>w. image_mset snd (timers_hold (s_timers w))) (ps_ws (es_pool s))"
    using shutdown_worker_has [OF inv(1) assms(2,3) returned(2)] by simp
  have "system_has s = sum_list (map (\<lambda>w. image_mset snd (timers_hold (s_timers w))) (ps_ws (es_pool s)))"
    unfolding system_has_def has by (simp add: consumer_has_def returned)
  then show ?thesis
    using engine_account [OF assms(1,2)] by (simp add: ac_simps)
qed

text \<open>C3: once the drain of the engine has returned, every delivery that arrived has been settled, was refused because
  the run was cancelled, or is about to be nacked by a timeout callback already under way. Nothing else is left.\<close>

theorem engine_drained:
  assumes "engine_reachable c e cfg n capacity s" "few_given (es_pool s)" "ps_shut (es_pool s) = ShReturned"
  shows "mset (map ad_tag (es_arrived s)) = mset (concat (map settled_by (system_requests s))) + refused_tags (es_pool s) +
    sum_list (map (\<lambda>w. image_mset snd (timers_hold (s_timers w))) (ps_ws (es_pool s)))"
  by (rule drained_account [OF assms])

theorem engine_drained_witness:
  "{#7, 9, 8, 10#} = mset (concat (map settled_by (system_requests (ex_engine ex_envelope)))) + {#10#} +
    sum_list (map (\<lambda>w. image_mset snd (timers_hold (s_timers w))) (ps_ws (es_pool (ex_engine ex_envelope))))"
  using engine_drained [OF ex_engine_reachable ex_engine_few ex_engine_returned]
  unfolding ex_engine_arrived ex_engine_refused by simp

text \<open>C6: the engine implements the broker's view of it. What the broker can see, over every interleaving of the
  consumer, the workers, the handler processes and the shutdown, is a run in which deliveries arrive and each
  is settled at most once, by a request that names it alone, and stays as it was settled.\<close>

theorem engine_implements_broker_view:
  assumes "engine_reachable c e cfg n capacity s" "few_given (es_pool s)"
  shows "bstep\<^sup>*\<^sup>* Map.empty (broker_of s)"
  using assms eb.reach_more by (simp add: engine_reachable_def)

theorem engine_implements_broker_view_witness:
  "bstep\<^sup>*\<^sup>* Map.empty (broker_of (ex_engine ex_envelope))"
  by (rule engine_implements_broker_view [OF ex_engine_reachable ex_engine_few])

end
