(* ===== verification/Descent.thy ===== *)
theory Descent
  imports Goxo_Prelude
begin

text \<open>
  Driving a step relation to a goal. While \<open>keep\<close> holds and the goal is not reached, some steps lead closer, by a
  rank, and keep it. Inside the locale the goal is reached; what can always still happen in the concurrent
  components interprets it. A second locale has the ranks under which every run ends.
\<close>

locale descent =
  fixes step :: "'s \<Rightarrow> 's \<Rightarrow> bool"
    and keep :: "'s \<Rightarrow> bool"
    and goal :: "'s \<Rightarrow> bool"
    and rank :: "'s \<Rightarrow> nat"
  assumes progress: "keep s \<Longrightarrow> \<not> goal s \<Longrightarrow> \<exists>t. step\<^sup>*\<^sup>* s t \<and> keep t \<and> rank t < rank s"
begin

lemma reaches: "keep s \<Longrightarrow> \<exists>t. step\<^sup>*\<^sup>* s t \<and> keep t \<and> goal t"
proof (induction s rule: measure_induct_rule [of rank])
  case (less s)
  show ?case
  proof (cases "goal s")
    case True
    then show ?thesis
      using less.prems by blast
  next
    case False
    then obtain t where t: "step\<^sup>*\<^sup>* s t" "keep t" "rank t < rank s"
      using progress less.prems by blast
    then obtain u where "step\<^sup>*\<^sup>* t u" "keep u" "goal u"
      using less.IH by blast
    then show ?thesis
      using t(1) rtranclp_trans [of step s t u] by blast
  qed
qed

end

text \<open>
  The other half of liveness: every step that changes the state lowers it in a lexicographic order of ranks, so no run
  goes on for ever and each ends in a state with no such step left.
\<close>

locale winds_down =
  fixes step :: "'s \<Rightarrow> 's \<Rightarrow> bool"
    and keep :: "'s \<Rightarrow> bool"
    and ranks :: "('s \<Rightarrow> nat) list"
  assumes keeps: "keep s \<Longrightarrow> step s t \<Longrightarrow> keep t"
    and lowers: "keep s \<Longrightarrow> step s t \<Longrightarrow> t \<noteq> s \<Longrightarrow> (t, s) \<in> measures ranks"
begin

lemma keeps_run: "step\<^sup>*\<^sup>* s t \<Longrightarrow> keep s \<Longrightarrow> keep t"
  by (induction rule: rtranclp_induct) (auto intro: keeps)

lemma never_for_ever:
  assumes "keep s"
  shows "\<nexists>run. run 0 = s \<and> (\<forall>k. step (run k) (run (Suc k)) \<and> run (Suc k) \<noteq> run k)"
proof
  assume "\<exists>run. run 0 = s \<and> (\<forall>k. step (run k) (run (Suc k)) \<and> run (Suc k) \<noteq> run k)"
  then obtain run where run: "run 0 = s" "\<And>k. step (run k) (run (Suc k))" "\<And>k. run (Suc k) \<noteq> run k"
    by blast
  have "keep (run k)" for k
    by (induction k) (use assms run(1,2) keeps in auto)
  then have "\<forall>k. (run (Suc k), run k) \<in> measures ranks"
    using run(2,3) lowers by blast
  moreover have "wf (measures ranks)"
    by simp
  ultimately show False
    unfolding wf_iff_no_infinite_down_chain by blast
qed

lemma has_end:
  assumes "keep s"
  shows "\<exists>t. step\<^sup>*\<^sup>* s t \<and> (\<nexists>u. step t u \<and> u \<noteq> t)"
proof -
  obtain t where t: "step\<^sup>*\<^sup>* s t" "\<And>u. (u, t) \<in> measures ranks \<Longrightarrow> \<not> step\<^sup>*\<^sup>* s u"
    using wfE_min [of "measures ranks" s "{t. step\<^sup>*\<^sup>* s t}"] by auto
  have "\<not> (step t u \<and> u \<noteq> t)" for u
    using t lowers keeps_run [OF t(1) assms] rtranclp.rtrancl_into_rtrancl [of step s t u] by blast
  then show ?thesis
    using t(1) by blast
qed

end

lemma ended_stays: "step\<^sup>*\<^sup>* t u \<Longrightarrow> \<nexists>u. step t u \<and> u \<noteq> t \<Longrightarrow> u = t"
  by (induction rule: rtranclp_induct) auto

text \<open>Ranks of a part of the state, and sums of the ranks of the members of a list.\<close>

definition onto :: "('s \<Rightarrow> 'a) \<Rightarrow> ('a \<Rightarrow> nat) list \<Rightarrow> ('s \<Rightarrow> nat) list" where
  "onto part ranks = map (\<lambda>f s. f (part s)) ranks"

definition sums :: "('a \<Rightarrow> nat) list \<Rightarrow> ('a list \<Rightarrow> nat) list" where
  "sums ranks = map (\<lambda>f xs. sum_list (map f xs)) ranks"

lemma measures_onto [simp]: "(s, t) \<in> measures (onto part ranks) \<longleftrightarrow> (part s, part t) \<in> measures ranks"
  by (induction ranks) (simp_all add: onto_def)

lemma measures_append: "(s, t) \<in> measures ranks \<Longrightarrow> \<forall>f \<in> set first. f s = f t \<Longrightarrow> (s, t) \<in> measures (first @ ranks)"
  by (induction first) simp_all

lemma sum_update:
  fixes f :: "'a \<Rightarrow> nat"
  assumes "i < length xs"
  shows "sum_list (map f (xs[i := y])) + f (xs ! i) = sum_list (map f xs) + f y"
proof -
  have "sum_list (map f xs) = sum_list (map f (take i xs)) + f (xs ! i) + sum_list (map f (drop (Suc i) xs))"
    by (subst id_take_nth_drop [OF assms]) simp
  then show ?thesis
    by (simp add: upd_conv_take_nth_drop [OF assms])
qed

lemma measures_update:
  assumes "i < length xs" "(y, xs ! i) \<in> measures ranks"
  shows "(xs[i := y], xs) \<in> measures (sums ranks)"
  using assms(2)
proof (induction ranks)
  case (Cons f ranks)
  then show ?case
    using sum_update [OF assms(1), of f y] by (auto simp: sums_def)
qed (simp add: sums_def)

end
