(* ===== verification/Pool_Liveness.thy ===== *)
theory Pool_Liveness
  imports Pool_Properties Descent
begin

text \<open>
  What can always still happen in the pool (\<open>internal/worker/worker.go\<close>, \<open>pool.go\<close>) once the run is cancelled: a supervisor can
  stop, an open \<open>Dispatch\<close> can return, and a timeout callback can settle what it claimed. Each is a descent of the
  locale \<open>descent\<close>, in quiet steps of a worker: nothing more comes from its handler but its exit.
\<close>

section \<open>Quiet steps\<close>

text \<open>A step of a worker that reads no note of its handler. The exit of a handler process is such a step.\<close>

definition quiet_own :: "sys \<Rightarrow> sys \<Rightarrow> bool" where
  "quiet_own s t \<longleftrightarrow> own_step s t \<and> s_reads t = s_reads s"

section \<open>One worker\<close>

text \<open>The supervisor's distance from stopping.\<close>

definition sup_rank :: "sys \<Rightarrow> nat" where
  "sup_rank s =
     (case s_sup s of
        SStopped \<Rightarrow> 0
      | SSpawn \<Rightarrow> 1
      | SBackoff \<Rightarrow> 1
      | SStale stale closing \<Rightarrow> 2 + length stale
      | SWait pid \<Rightarrow> 3 + length (w_msgs (s_w s)) + (if p_exited (s_procs s ! pid) then 0 else 1)
      | SEnded pid \<Rightarrow> 5 + length (w_msgs (s_w s))
      | SRead pid \<Rightarrow> 6 + length (w_msgs (s_w s))
      | _ \<Rightarrow> 7 + length (w_msgs (s_w s)))"

definition sound :: "sys \<Rightarrow> bool" where
  "sound s \<longleftrightarrow> (\<exists>i cfg capacity. reachable i cfg capacity s) \<and> length (s_given s) < 2 ^ 64"

lemma sound_step: "quiet_own s t \<Longrightarrow> s_given t = s_given s \<Longrightarrow> sound s \<Longrightarrow> sound t"
  unfolding sound_def quiet_own_def own_step_def using reachable_step by metis

lemma sound_inv: "sound s \<Longrightarrow> winv s \<and> whist s"
  using reachable_few by (auto simp: sound_def)

text \<open>What a worker's steps towards stopping leave alone.\<close>

definition same_outside :: "sys \<Rightarrow> sys \<Rightarrow> bool" where
  "same_outside s t \<longleftrightarrow> s_given t = s_given s \<and> s_disp t = s_disp s \<and> s_closer t = s_closer s \<and> s_ctx t = s_ctx s \<and>
     s_reads t = s_reads s"

lemma quiet_ownI: "wstep s t \<Longrightarrow> same_outside s t \<Longrightarrow> quiet_own s t"
  by (simp add: quiet_own_def own_step_def same_outside_def)

lemma descends: "wstep s t \<Longrightarrow> same_outside s t \<Longrightarrow> sup_rank t < sup_rank s \<Longrightarrow>
    \<exists>t. wstep s t \<and> same_outside s t \<and> sup_rank t < sup_rank s"
  by blast

lemma sup_progress:
  assumes "sound s" "s_ctx s" "s_sup s \<noteq> SStopped"
  shows "\<exists>t. wstep s t \<and> same_outside s t \<and> sup_rank t < sup_rank s"
proof (cases "s_sup s")
  case SSpawn
  then show ?thesis
    using assms(2) by (intro descends [OF spawn_fail_stop]) (simp_all add: shuttingDown_def same_outside_def sup_rank_def step_defs)
next
  case SBackoff
  then show ?thesis
    using assms(2) by (intro descends [OF backoff_cancelled]) (simp_all add: same_outside_def sup_rank_def step_defs)
next
  case (SRead pid)
  then show ?thesis
    by (intro descends [OF read_end]) (simp_all add: same_outside_def sup_rank_def)
next
  case (SEmit pid e chain)
  show ?thesis
  proof (cases "declared (s_w s) (em_selector e)")
    case True
    then show ?thesis
      using SEmit by (intro descends [OF emit_published]) (simp_all add: same_outside_def sup_rank_def)
  next
    case False
    then show ?thesis
      using SEmit by (intro descends [OF emit_undeclared]) (simp_all add: same_outside_def sup_rank_def)
  qed
next
  case (SSettle pid i tag c)
  then show ?thesis
    by (intro descends [OF done_settled]) (simp_all add: same_outside_def sup_rank_def)
next
  case (SEnded pid)
  then show ?thesis
    by (intro descends [OF ended_stop]) (simp_all add: same_outside_def sup_rank_def)
next
  case (SWait pid)
  then have pid: "pid < length (s_procs s)"
    using sound_inv [OF assms(1)] by (simp add: winv_def cur_agrees_def)
  show ?thesis
  proof (cases "p_exited (s_procs s ! pid)")
    case True
    then show ?thesis
      using SWait by (intro descends [OF waited]) (auto simp: same_outside_def sup_rank_def reap_def)
  next
    case False
    then show ?thesis
      using SWait pid by (intro descends [OF proc_exit [OF pid]]) (simp_all add: same_outside_def sup_rank_def on_proc_def)
  qed
next
  case (SStale stale closing)
  show ?thesis
  proof (cases stale)
    case Nil
    show ?thesis
    proof (cases closing)
      case True
      then show ?thesis
        using SStale Nil by (intro descends [OF stale_stop]) (simp_all add: same_outside_def sup_rank_def step_defs)
    next
      case False
      then show ?thesis
        using SStale Nil by (intro descends [OF stale_respawn]) (simp_all add: same_outside_def sup_rank_def)
    qed
  next
    case (Cons e rest)
    then show ?thesis
      using SStale by (intro descends [OF stale_one [where xs = "[]" and i = "fst e" and m = "snd e" and ys = rest]])
        (simp_all add: same_outside_def sup_rank_def)
  qed
qed (use assms in auto)

text \<open>The supervisor of a cancelled run can stop, leaving the rest of the worker as it is.\<close>

definition leads_to :: "sys \<Rightarrow> sys \<Rightarrow> bool" where
  "leads_to s t \<longleftrightarrow> sound t \<and> s_ctx t \<and> same_outside s t"

interpretation sd: descent quiet_own "leads_to s" "\<lambda>t. s_sup t = SStopped" sup_rank for s
proof unfold_locales
  fix t
  assume keep: "leads_to s t" and goal: "s_sup t \<noteq> SStopped"
  then obtain u where u: "wstep t u" "same_outside t u" "sup_rank u < sup_rank t"
    using sup_progress by (auto simp: leads_to_def)
  then have "quiet_own t u"
    by (intro quiet_ownI)
  moreover have "leads_to s u"
    using keep u(2) sound_step [OF calculation] by (auto simp: leads_to_def same_outside_def)
  ultimately show "\<exists>u. quiet_own\<^sup>*\<^sup>* t u \<and> leads_to s u \<and> sup_rank u < sup_rank t"
    using u(3) by blast
qed

lemma worker_can_stop:
  assumes "sound s" "s_ctx s"
  shows "\<exists>t. quiet_own\<^sup>*\<^sup>* s t \<and> same_outside s t \<and> w_stopped (s_w t)"
proof -
  obtain t where "quiet_own\<^sup>*\<^sup>* s t" "leads_to s t" "s_sup t = SStopped"
    using sd.reaches [of s s] assms by (auto simp: leads_to_def same_outside_def)
  then show ?thesis
    using sound_inv by (auto simp: leads_to_def whist_def stop_hist_def)
qed

text \<open>An open \<open>Dispatch\<close> of a cancelled run can return: it is refused, or its message is not sent.\<close>

fun disp_rank :: "disp_pc \<Rightarrow> nat" where
  "disp_rank DIdle = 0"
| "disp_rank (DWait d) = 1"
| "disp_rank (DRequeue i d) = 1"
| "disp_rank (DReclaim i d) = 2"
| "disp_rank (DSend i pid d) = 3"

lemma disp_descends:
  "wstep s t \<Longrightarrow> s_given t = s_given s \<and> s_closer t = s_closer s \<and> s_ctx t \<and> s_reads t = s_reads s \<and>
      disp_rank (s_disp t) < disp_rank (s_disp s) \<Longrightarrow>
    \<exists>t. wstep s t \<and> s_given t = s_given s \<and> s_closer t = s_closer s \<and> s_ctx t \<and> s_reads t = s_reads s \<and>
      disp_rank (s_disp t) < disp_rank (s_disp s)"
  by blast

lemma disp_progress:
  assumes "s_ctx s" "s_disp s \<noteq> DIdle"
  shows "\<exists>t. wstep s t \<and> s_given t = s_given s \<and> s_closer t = s_closer s \<and> s_ctx t \<and> s_reads t = s_reads s \<and>
      disp_rank (s_disp t) < disp_rank (s_disp s)"
proof (cases "s_disp s")
  case (DWait d)
  then show ?thesis
    using assms(1) by (intro disp_descends [OF disp_refuse]) (simp_all add: refuses_def)
next
  case (DSend i pid d)
  then show ?thesis
    using assms(1) by (intro disp_descends [OF disp_unsent]) simp_all
next
  case (DReclaim i d)
  show ?thesis
  proof (cases "claim i (s_w s)")
    case (Pair found w')
    show ?thesis
    proof (cases found)
      case None
      then show ?thesis
        using assms(1) DReclaim Pair by (intro disp_descends [OF disp_reclaim_miss [OF DReclaim, of w']]) simp_all
    next
      case (Some m)
      then show ?thesis
        using assms(1) DReclaim Pair by (intro disp_descends [OF disp_reclaim_hit [OF DReclaim, of m w']]) simp_all
    qed
  qed
next
  case (DRequeue i d)
  then show ?thesis
    using assms(1) by (intro disp_descends [OF disp_requeue]) simp_all
qed (use assms in simp)

definition disp_keeps :: "sys \<Rightarrow> sys \<Rightarrow> bool" where
  "disp_keeps s t \<longleftrightarrow> s_given t = s_given s \<and> s_closer t = s_closer s \<and> s_ctx t"

interpretation dd: descent quiet_own "disp_keeps s" "\<lambda>t. s_disp t = DIdle" "\<lambda>t. disp_rank (s_disp t)" for s
proof unfold_locales
  fix t
  assume keep: "disp_keeps s t" and goal: "s_disp t \<noteq> DIdle"
  then obtain u where u: "wstep t u" "s_given u = s_given t" "s_closer u = s_closer t" "s_ctx u"
      "s_reads u = s_reads t" "disp_rank (s_disp u) < disp_rank (s_disp t)"
    using disp_progress [of t] by (auto simp only: disp_keeps_def)
  then have "quiet_own t u"
    using keep goal by (simp add: quiet_own_def own_step_def disp_keeps_def)
  then show "\<exists>u. quiet_own\<^sup>*\<^sup>* t u \<and> disp_keeps s u \<and> disp_rank (s_disp u) < disp_rank (s_disp t)"
    using keep u by (intro exI [of _ u]) (simp add: disp_keeps_def)
qed

lemma dispatch_can_return:
  "s_ctx s \<Longrightarrow> \<exists>t. quiet_own\<^sup>*\<^sup>* s t \<and> disp_keeps s t \<and> s_disp t = DIdle"
  using dd.reaches [of s s] by (simp add: disp_keeps_def)

text \<open>A timeout callback that has claimed its message can nack it.\<close>

definition timer_keeps :: "sys \<Rightarrow> sys \<Rightarrow> bool" where
  "timer_keeps s t \<longleftrightarrow> sound t \<and> same_outside s t \<and> s_w t = s_w s"

lemma in_timers_hold: "timers_hold ts \<noteq> {#} \<Longrightarrow> \<exists>i tag. (i, TNack tag) \<in> set ts"
proof (rule ccontr)
  assume "timers_hold ts \<noteq> {#}" "\<nexists>i tag. (i, TNack tag) \<in> set ts"
  moreover have "timer_holds (i, x) = {#} \<or> (\<exists>tag. x = TNack tag)" for i x
    by (cases x) auto
  ultimately have "\<forall>e \<in> set ts. timer_holds e = {#}"
    by (metis prod.collapse)
  then have "timers_hold ts = {#}"
    by (simp add: timers_hold_def image_mset_cong [of "mset ts" timer_holds "\<lambda>_. {#}"])
  then show False
    using \<open>timers_hold ts \<noteq> {#}\<close> by simp
qed

interpretation td: descent quiet_own "timer_keeps s" "\<lambda>t. timers_hold (s_timers t) = {#}" "\<lambda>t. size (timers_hold (s_timers t))" for s
proof unfold_locales
  fix t
  assume keep: "timer_keeps s t" and goal: "timers_hold (s_timers t) \<noteq> {#}"
  obtain i tag where "(i, TNack tag) \<in> set (s_timers t)"
    using in_timers_hold [OF goal] by blast
  moreover have "mwf (s_timers t)"
    using keep sound_inv by (auto simp: timer_keeps_def winv_def wf_maps_def)
  ultimately have found: "map_of (s_timers t) i = Some (TNack tag)"
    by (intro map_of_is_SomeI mwf_distinct)
  define u where "u = (settle i tag TimedOut t)\<lparr>s_timers := mdel i (s_timers t)\<rparr>"
  have "wstep t u" "same_outside t u" "s_w u = s_w t"
    using timeout_settled [OF found] by (simp_all add: u_def same_outside_def)
  moreover have "size (timers_hold (s_timers u)) < size (timers_hold (s_timers t))"
    using timers_hold_del [OF found] by (simp add: u_def)
  ultimately show "\<exists>u. quiet_own\<^sup>*\<^sup>* t u \<and> timer_keeps s u \<and>
      size (timers_hold (s_timers u)) < size (timers_hold (s_timers t))"
    using keep quiet_ownI [of t u] sound_step [of t u]
    by (intro exI [of _ u]) (auto simp: timer_keeps_def same_outside_def)
qed

lemma timers_can_settle:
  "sound s \<Longrightarrow> \<exists>t. quiet_own\<^sup>*\<^sup>* s t \<and> timer_keeps s t \<and> timers_hold (s_timers t) = {#}"
  using td.reaches [of s s] by (simp add: timer_keeps_def same_outside_def)

end
