(* ===== verification/Engine_Liveness.thy ===== *)
theory Engine_Liveness
  imports Engine_System Pool_Liveness
begin

text \<open>
  No state of a cancelled run is stuck. From every reachable state of \<open>Engine_Machine\<close> in which the run is cancelled,
  quiet steps lead to the end: the consumer returns, the workers stop once their handlers exit, \<open>Shutdown\<close> returns,
  and the timeout callbacks that had claimed a message settle it. \<open>Engine_Drain\<close> adds that no quiet run goes on for ever.
\<close>

section \<open>The pool\<close>

text \<open>A step of the pool in which no worker reads a note of its handler.\<close>

definition pool_quiet :: "pool_sys \<Rightarrow> pool_sys \<Rightarrow> bool" where
  "pool_quiet p q \<longleftrightarrow> pool_own p q \<and> map s_reads (ps_ws q) = map s_reads (ps_ws p)"

lemmas pool_quiet_defs = pool_quiet_def pool_own_def

lemmas quiet_own_defs = quiet_own_def own_step_def

definition ready :: "config \<Rightarrow> int \<Rightarrow> int \<Rightarrow> pool_sys \<Rightarrow> bool" where
  "ready cfg n capacity p \<longleftrightarrow> pool_reachable cfg n capacity p \<and> few_given p \<and> (\<forall>s \<in> set (ps_ws p). s_ctx s)"

lemma pool_quiet_work: "i < length (ps_ws p) \<Longrightarrow> quiet_own (ps_ws p ! i) t \<Longrightarrow> pool_quiet p (set_worker i t p)"
  using work [of i p t] by (simp add: pool_quiet_defs quiet_own_defs map_update_same)

lemma set_worker_twice: "set_worker i u (set_worker i t p) = set_worker i u p"
  by (simp add: set_worker_def)

lemma set_worker_same: "set_worker i (ps_ws p ! i) p = p"
  by (cases p) (simp add: set_worker_def)

lemma pool_quiet_works:
  assumes "quiet_own\<^sup>*\<^sup>* (ps_ws p ! i) t" "i < length (ps_ws p)"
  shows "pool_quiet\<^sup>*\<^sup>* p (set_worker i t p)"
  using assms(1)
proof (induction rule: rtranclp_induct)
  case base
  then show ?case by (simp add: set_worker_same)
next
  case (step t u)
  have "pool_quiet (set_worker i t p) (set_worker i u (set_worker i t p))"
    using step.hyps(2) assms(2) by (intro pool_quiet_work) simp_all
  then show ?case
    using step.IH by (simp add: set_worker_twice)
qed

lemma pool_quiet_reachable: "pool_quiet\<^sup>*\<^sup>* p q \<Longrightarrow> pool_reachable cfg n capacity p \<Longrightarrow> pool_reachable cfg n capacity q"
  by (induction rule: rtranclp_induct)
    (auto simp: pool_reachable_def pool_quiet_defs intro: rtranclp.rtrancl_into_rtrancl)

lemma ready_sound: "ready cfg n capacity p \<Longrightarrow> s \<in> set (ps_ws p) \<Longrightarrow> sound s"
  unfolding ready_def few_given_def sound_def using pool_workers by metis

lemma ready_upd:
  assumes "ready cfg n capacity p" "quiet_own\<^sup>*\<^sup>* (ps_ws p ! i) t" "i < length (ps_ws p)"
    and "s_given t = s_given (ps_ws p ! i)" "s_ctx t"
  shows "ready cfg n capacity (set_worker i t p)"
proof -
  have "length (s_given t) < 2 ^ 64"
    using assms(1,3,4) by (simp add: ready_def few_given_def)
  then show ?thesis
    using assms(1,5) pool_quiet_reachable [OF pool_quiet_works [OF assms(2,3)]]
    by (auto simp: ready_def few_given_def dest!: set_update_subset_insert [THEN subsetD])
qed

section \<open>The shutdown\<close>

text \<open>The index of the shutdown stays in range, and nothing is killed before every worker was asked to close.\<close>

definition unkilled :: "pool_sys \<Rightarrow> bool" where
  "unkilled p \<longleftrightarrow> (\<forall>s \<in> set (ps_ws p). s_closer s \<noteq> CKilled)"

definition shut_ok :: "pool_sys \<Rightarrow> bool" where
  "shut_ok p \<longleftrightarrow>
     (case ps_shut p of
        ShIdle \<Rightarrow> unkilled p
      | ShClose i \<Rightarrow> i \<le> length (ps_ws p) \<and> unkilled p
      | ShWait i \<Rightarrow> i \<le> length (ps_ws p)
      | ShKilled i \<Rightarrow> i < length (ps_ws p)
      | ShReturned \<Rightarrow> True)"

lemma step_killed: "wstep s t \<Longrightarrow> s_closer t = CKilled \<Longrightarrow> s_closer s = CDone \<or> s_closer s = CKilled"
  by (erule wstep.cases) (simp_all add: step_defs)

lemma own_not_killed: "own_step s t \<Longrightarrow> s_closer s \<noteq> CKilled \<Longrightarrow> s_closer t \<noteq> CKilled"
  by (cases "s_closer s") (auto simp: quiet_own_defs dest: step_killed)

lemma pstep_shut_ok:
  assumes "pstep p q" "shut_ok p"
  shows "shut_ok q"
  using assms(1)
proof (cases rule: pstep.cases)
  case (work i s)
  have "unkilled p \<Longrightarrow> unkilled q"
    using work own_not_killed [OF work(3)]
    by (auto simp: unkilled_def dest!: set_update_subset_insert [THEN subsetD])
  then show ?thesis
    using work(1) assms(2) by (auto simp: shut_ok_def split: shut_pc.splits)
next
  case (pick_done d best seen i)
  have "unkilled p \<Longrightarrow> unkilled q"
    using pick_done(1) by (cases "i < length (ps_ws p)")
      (auto simp: unkilled_def list_update_beyond dest!: set_update_subset_insert [THEN subsetD])
  then show ?thesis
    using pick_done(1) assms(2) by (auto simp: shut_ok_def split: shut_pc.splits)
qed (use assms(2) in \<open>auto simp: shut_ok_def unkilled_def split: shut_pc.splits
      dest!: set_update_subset_insert [THEN subsetD]\<close>)

interpretation pk: machine_plus "start_pool cfg n capacity" pstep "\<lambda>_. True" "pool_inv cfg n capacity" shut_ok
  for cfg n capacity
proof unfold_locales
  show "shut_ok (start_pool cfg n capacity)"
    by (auto simp: shut_ok_def start_pool_def unkilled_def init_sys_def)
qed (rule pstep_shut_ok)

lemma ready_shut_ok: "ready cfg n capacity p \<Longrightarrow> shut_ok p"
  unfolding ready_def pool_reachable_def by (blast intro: pk.reach_more TrueI)

text \<open>The shutdown's distance from its end.\<close>

definition shut_rank :: "pool_sys \<Rightarrow> nat" where
  "shut_rank p =
     (case ps_shut p of
        ShIdle \<Rightarrow> 3 + 2 * length (ps_ws p)
      | ShClose i \<Rightarrow> 2 + length (ps_ws p) + (length (ps_ws p) - i)
      | ShWait i \<Rightarrow> 1 + (length (ps_ws p) - i)
      | ShKilled i \<Rightarrow> 1 + (length (ps_ws p) - i)
      | ShReturned \<Rightarrow> 0)"

text \<open>A step of the shutdown thread that changes nothing but its own place.\<close>

definition moves :: "pool_sys \<Rightarrow> shut_pc \<Rightarrow> bool" where
  "moves p pc \<longleftrightarrow> pstep p (p\<lparr>ps_shut := pc\<rparr>) \<and> ps_shut p \<noteq> ShIdle \<and> pc \<noteq> ShIdle"

lemma moves_own: "moves p pc \<Longrightarrow> pool_quiet p (p\<lparr>ps_shut := pc\<rparr>)"
  by (simp add: moves_def pool_quiet_defs)

lemma ready_moves:
  assumes "ready cfg n capacity p" "moves p pc"
  shows "ready cfg n capacity (p\<lparr>ps_shut := pc\<rparr>)"
  using assms pool_quiet_reachable [OF r_into_rtranclp [of pool_quiet, OF moves_own [OF assms(2)]]]
  by (auto simp: ready_def few_given_def)

definition draining :: "config \<Rightarrow> int \<Rightarrow> int \<Rightarrow> pool_sys \<Rightarrow> bool" where
  "draining cfg n capacity p \<longleftrightarrow> ready cfg n capacity p \<and> ps_shut p \<noteq> ShIdle"

text \<open>Worker \<open>i\<close> stops, and the shutdown thread goes on to the next one.\<close>

lemma wait_progress:
  assumes "draining cfg n capacity p" "i < length (ps_ws p)" "ps_shut p = ShWait i \<or> ps_shut p = ShKilled i"
  shows "\<exists>q. pool_quiet\<^sup>*\<^sup>* p q \<and> draining cfg n capacity q \<and> shut_rank q < shut_rank p"
proof -
  have ready: "ready cfg n capacity p"
    using assms(1) by (simp add: draining_def)
  have "sound (ps_ws p ! i)" "s_ctx (ps_ws p ! i)"
    using ready_sound [OF ready] ready assms(2) by (auto simp: ready_def)
  then obtain t where t: "quiet_own\<^sup>*\<^sup>* (ps_ws p ! i) t" "same_outside (ps_ws p ! i) t" "w_stopped (s_w t)"
    using worker_can_stop by blast
  define q where "q = set_worker i t p"
  have q: "pool_quiet\<^sup>*\<^sup>* p q" "ready cfg n capacity q"
    using pool_quiet_works [OF t(1) assms(2)] ready_upd [OF ready t(1) assms(2)] t(2) \<open>s_ctx (ps_ws p ! i)\<close>
    by (auto simp: q_def same_outside_def)
  have "moves q (ShWait (Suc i))"
    using assms(2,3) t(3) wait_stopped [of q i] wait_killed [of q i] by (auto simp: moves_def q_def)
  then have "pool_quiet q (q\<lparr>ps_shut := ShWait (Suc i)\<rparr>)" "draining cfg n capacity (q\<lparr>ps_shut := ShWait (Suc i)\<rparr>)"
    using moves_own ready_moves [OF q(2)] by (auto simp: draining_def)
  moreover have "shut_rank (q\<lparr>ps_shut := ShWait (Suc i)\<rparr>) < shut_rank p"
    using assms(2,3) by (auto simp: shut_rank_def q_def)
  ultimately show ?thesis
    using q(1) by (blast intro: rtranclp.rtrancl_into_rtrancl)
qed

text \<open>Worker \<open>i\<close> is asked to close, and the shutdown thread goes on to the next one.\<close>

lemma stop_requested:
  assumes "s_closer s = CStop cur"
  shows "\<exists>t. quiet_own s t \<and> s_closer t = CDone \<and> s_given t = s_given s \<and> s_ctx t = s_ctx s"
proof (cases cur)
  case None
  then show ?thesis
    using close_none [of s] assms by (intro exI [of _ "s\<lparr>s_closer := CDone\<rparr>"]) (simp add: quiet_own_defs)
next
  case (Some pid)
  then show ?thesis
    using close_stop [of s pid] assms
    by (intro exI [of _ "(on_proc pid requestStop s)\<lparr>s_closer := CDone\<rparr>"]) (simp add: quiet_own_defs)
qed

lemma close_asks:
  assumes "ready cfg n capacity p" "ps_shut p = ShClose i" "i < length (ps_ws p)"
  shows "\<exists>q. pool_quiet\<^sup>*\<^sup>* p q \<and> ready cfg n capacity q \<and> ps_shut q = ShClose i \<and>
    length (ps_ws q) = length (ps_ws p) \<and> s_closer (ps_ws q ! i) \<noteq> CIdle"
proof (cases "s_closer (ps_ws p ! i) = CIdle")
  case True
  obtain cur w' where close: "beginClose (s_w (ps_ws p ! i)) = (cur, w')"
    by fastforce
  define q where "q = set_worker i ((ps_ws p ! i)\<lparr>s_w := w', s_closer := CStop cur\<rparr>) p"
  have "pool_quiet p q"
    using close_one [OF assms(2,3) True close] assms(2) by (simp add: pool_quiet_defs q_def map_update_same)
  moreover have "ready cfg n capacity q"
    using assms(1,3) pool_quiet_reachable [OF r_into_rtranclp [of pool_quiet, OF calculation]]
    by (auto simp: ready_def few_given_def q_def dest!: set_update_subset_insert [THEN subsetD])
  ultimately show ?thesis
    using assms(2,3) by (intro exI [of _ q]) (auto simp: q_def)
next
  case False
  then show ?thesis
    using assms by blast
qed

lemma close_progress:
  assumes "draining cfg n capacity p" "i < length (ps_ws p)" "ps_shut p = ShClose i"
  shows "\<exists>q. pool_quiet\<^sup>*\<^sup>* p q \<and> draining cfg n capacity q \<and> shut_rank q < shut_rank p"
proof -
  obtain p1 where p1: "pool_quiet\<^sup>*\<^sup>* p p1" "ready cfg n capacity p1" "ps_shut p1 = ShClose i"
      "length (ps_ws p1) = length (ps_ws p)" "s_closer (ps_ws p1 ! i) \<noteq> CIdle"
    using close_asks [OF _ assms(3,2)] assms(1) unfolding draining_def by blast
  have i: "i < length (ps_ws p1)"
    using assms(2) p1(4) by simp
  have "s_closer (ps_ws p1 ! i) \<noteq> CKilled"
    using ready_shut_ok [OF p1(2)] p1(3) i by (simp add: shut_ok_def unkilled_def)
  then obtain t where t: "quiet_own\<^sup>*\<^sup>* (ps_ws p1 ! i) t" "s_closer t = CDone" "s_given t = s_given (ps_ws p1 ! i)"
      "s_ctx t = s_ctx (ps_ws p1 ! i)"
    using p1(5) stop_requested [of "ps_ws p1 ! i"] by (cases "s_closer (ps_ws p1 ! i)") auto
  define q where "q = set_worker i t p1"
  have "s_ctx (ps_ws p1 ! i)"
    using p1(2) i by (simp add: ready_def)
  then have q: "pool_quiet\<^sup>*\<^sup>* p1 q" "ready cfg n capacity q"
    using pool_quiet_works [OF t(1) i] ready_upd [OF p1(2) t(1) i t(3)] t(4) by (auto simp: q_def)
  have "moves q (ShClose (Suc i))"
    using i p1(3) t(2) close_next [of q i] by (simp add: moves_def q_def)
  then have "pool_quiet q (q\<lparr>ps_shut := ShClose (Suc i)\<rparr>)" "draining cfg n capacity (q\<lparr>ps_shut := ShClose (Suc i)\<rparr>)"
    using moves_own ready_moves [OF q(2)] by (auto simp: draining_def)
  moreover have "shut_rank (q\<lparr>ps_shut := ShClose (Suc i)\<rparr>) < shut_rank p"
    using assms(2,3) p1(4) by (auto simp: shut_rank_def q_def)
  ultimately show ?thesis
    using p1(1) q(1) by (meson rtranclp.rtrancl_into_rtrancl rtranclp_trans)
qed

lemma move_progress:
  assumes "draining cfg n capacity p" "moves p pc" "shut_rank (p\<lparr>ps_shut := pc\<rparr>) < shut_rank p"
  shows "\<exists>q. pool_quiet\<^sup>*\<^sup>* p q \<and> draining cfg n capacity q \<and> shut_rank q < shut_rank p"
  using assms moves_own ready_moves [of cfg n capacity p pc]
  by (intro exI [of _ "p\<lparr>ps_shut := pc\<rparr>"]) (auto simp: draining_def moves_def)

interpretation sh: descent pool_quiet "draining cfg n capacity" "\<lambda>p. ps_shut p = ShReturned" shut_rank
  for cfg n capacity
proof unfold_locales
  fix p
  assume keep: "draining cfg n capacity p" and goal: "ps_shut p \<noteq> ShReturned"
  then have ok: "shut_ok p"
    using ready_shut_ok by (auto simp: draining_def)
  show "\<exists>q. pool_quiet\<^sup>*\<^sup>* p q \<and> draining cfg n capacity q \<and> shut_rank q < shut_rank p"
  proof (cases "ps_shut p")
    case ShIdle
    then show ?thesis
      using keep by (simp add: draining_def)
  next
    case (ShClose i)
    show ?thesis
    proof (cases "i < length (ps_ws p)")
      case False
      then have "moves p (ShWait 0)"
        using ok ShClose close_all [of p] by (simp add: moves_def shut_ok_def)
      then show ?thesis
        using move_progress [OF keep] ShClose by (simp add: shut_rank_def)
    qed (rule close_progress [OF keep _ ShClose])
  next
    case (ShWait i)
    show ?thesis
    proof (cases "i < length (ps_ws p)")
      case False
      then have "moves p ShReturned"
        using ok ShWait wait_all [of p] by (simp add: moves_def shut_ok_def)
      then show ?thesis
        using move_progress [OF keep] ShWait by (simp add: shut_rank_def)
    qed (use wait_progress [OF keep] ShWait in blast)
  next
    case (ShKilled i)
    then show ?thesis
      using wait_progress [OF keep] ok by (simp add: shut_ok_def)
  qed (use goal in simp)
qed

lemma shutdown_can_return:
  "ready cfg n capacity p \<Longrightarrow> ps_shut p \<noteq> ShIdle \<Longrightarrow>
    \<exists>q. pool_quiet\<^sup>*\<^sup>* p q \<and> ready cfg n capacity q \<and> ps_shut q = ShReturned"
  using sh.reaches [of cfg n capacity p] by (auto simp: draining_def)

section \<open>The dispatch that is under way\<close>

definition pick_rank :: "pool_sys \<Rightarrow> nat" where
  "pick_rank p = (case ps_pick p of PIdle \<Rightarrow> 0 | PScan d best seen \<Rightarrow> Suc (length (ps_ws p) - length seen))"

lemma ready_same:
  assumes "ready cfg n capacity p" "pool_quiet p q" "map s_given (ps_ws q) = map s_given (ps_ws p)"
  shows "ready cfg n capacity q"
proof -
  have few: "few_given p \<longleftrightarrow> (\<forall>g \<in> set (map s_given (ps_ws p)). length g < 2 ^ 64)" for p
    by (simp add: few_given_def)
  have ctx: "(\<forall>s \<in> set (ps_ws p). s_ctx s) \<longleftrightarrow> (\<forall>b \<in> set (map s_ctx (ps_ws p)). b)" for p
    by simp
  have "map s_ctx (ps_ws q) = map s_ctx (ps_ws p)"
    using assms(2) by (simp only: pool_quiet_defs)
  then have "few_given q \<and> (\<forall>s \<in> set (ps_ws q). s_ctx s)"
    using assms(1) unfolding ready_def few ctx assms(3) by simp
  then show ?thesis
    using assms(1) pool_quiet_reachable [OF r_into_rtranclp [of pool_quiet, OF assms(2)]] unfolding ready_def by blast
qed

interpretation pd: descent pool_quiet "ready cfg n capacity" "\<lambda>p. ps_pick p = PIdle" pick_rank for cfg n capacity
proof unfold_locales
  fix p
  assume keep: "ready cfg n capacity p" and goal: "ps_pick p \<noteq> PIdle"
  then obtain d best seen where scan: "ps_pick p = PScan d best seen"
    by (cases "ps_pick p") auto
  have ok: "scan_ok p"
    using keep pool_reachable_inv by (auto simp: ready_def pool_inv_def)
  define q where "q = (if length seen < length (ps_ws p)
    then p\<lparr>ps_pick := PScan d (better best (length seen) (load_of (ps_ws p ! length seen))) (seen @ [load_of (ps_ws p ! length seen)])\<rparr>
    else (set_worker (fst best) ((ps_ws p ! fst best)\<lparr>s_disp := DWait d\<rparr>) p)\<lparr>ps_pick := PIdle\<rparr>)"
  have "pstep p q"
    using pick_next [OF scan] pick_done [OF scan] ok scan by (auto simp: q_def scan_ok_def)
  then have own: "pool_quiet p q"
    using scan by (simp add: pool_quiet_defs q_def map_update_same)
  moreover have "map s_given (ps_ws q) = map s_given (ps_ws p)"
    by (simp add: q_def map_update_same)
  ultimately have "ready cfg n capacity q"
    using ready_same [OF keep] by blast
  moreover have "pick_rank q < pick_rank p"
    using scan by (auto simp: pick_rank_def q_def diff_less_mono2)
  ultimately show "\<exists>q. pool_quiet\<^sup>*\<^sup>* p q \<and> ready cfg n capacity q \<and> pick_rank q < pick_rank p"
    using own by blast
qed

lemma open_dispatch_returns:
  assumes "ready cfg n capacity p" "ps_pick p = PIdle"
  shows "\<exists>q. pool_quiet\<^sup>*\<^sup>* p q \<and> ready cfg n capacity q \<and> ps_pick q = PIdle \<and> no_dispatch q"
proof (cases "no_dispatch p")
  case True
  then show ?thesis
    using assms by blast
next
  case False
  then obtain i where i: "i < length (ps_ws p)" "s_disp (ps_ws p ! i) \<noteq> DIdle"
    by (auto simp: no_dispatch_def in_set_conv_nth)
  have one: "one_dispatch p"
    using assms(1) pool_reachable_inv by (auto simp: ready_def pool_inv_def)
  have ctx: "s_ctx (ps_ws p ! i)"
    using assms(1) i(1) by (simp add: ready_def)
  obtain t where t: "quiet_own\<^sup>*\<^sup>* (ps_ws p ! i) t" "disp_keeps (ps_ws p ! i) t" "s_disp t = DIdle"
    using dispatch_can_return [OF ctx] by blast
  have "no_dispatch (set_worker i t p)"
    unfolding no_dispatch_def
  proof
    fix s
    assume "s \<in> set (ps_ws (set_worker i t p))"
    then obtain j where j: "j < length (ps_ws p)" "s = (ps_ws p)[i := t] ! j"
      by (auto simp: in_set_conv_nth)
    show "s_disp s = DIdle"
    proof (cases "i = j")
      case True
      then show ?thesis
        using j t(3) by simp
    next
      case False
      then have "s_disp (ps_ws p ! j) = DIdle"
        using one i j(1) unfolding one_dispatch_def by blast
      then show ?thesis
        using False j(2) by simp
    qed
  qed
  moreover have "ready cfg n capacity (set_worker i t p)"
    using t(2) by (intro ready_upd [OF assms(1) t(1) i(1)]) (simp_all add: disp_keeps_def)
  ultimately show ?thesis
    using pool_quiet_works [OF t(1) i(1)] assms(2) by (intro exI [of _ "set_worker i t p"]) simp
qed

lemma dispatch_returns:
  assumes "ready cfg n capacity p"
  shows "\<exists>q. pool_quiet\<^sup>*\<^sup>* p q \<and> ready cfg n capacity q \<and> ps_pick q = PIdle \<and> no_dispatch q"
  using pd.reaches [OF assms] open_dispatch_returns by (meson rtranclp_trans)

section \<open>The engine\<close>

text \<open>A step of the engine in which the broker delivers nothing and no handler is heard, except that a handler process
  may exit.\<close>

definition quiet_step :: "('d, 'm) protolib \<Rightarrow> engine \<Rightarrow> engine_sys \<Rightarrow> engine_sys \<Rightarrow> bool" where
  "quiet_step c e s t \<longleftrightarrow> estep c e s t \<and> es_arrived t = es_arrived s \<and>
     map s_reads (ps_ws (es_pool t)) = map s_reads (ps_ws (es_pool s))"

lemma quiet_reachable: "(quiet_step c e)\<^sup>*\<^sup>* s t \<Longrightarrow> engine_reachable c e cfg n capacity s \<Longrightarrow> engine_reachable c e cfg n capacity t"
  by (induction rule: rtranclp_induct)
    (auto simp: engine_reachable_def quiet_step_def intro: rtranclp.rtrancl_into_rtrancl)

definition live :: "('d, 'm) protolib \<Rightarrow> engine \<Rightarrow> config \<Rightarrow> int \<Rightarrow> int \<Rightarrow> amqp_delivery list \<Rightarrow> engine_sys \<Rightarrow> bool" where
  "live c e cfg n capacity ds s \<longleftrightarrow>
     engine_reachable c e cfg n capacity s \<and> few_given (es_pool s) \<and> es_ctx s \<and> es_arrived s = ds"

lemma live_ready: "live c e cfg n capacity ds s \<Longrightarrow> ready cfg n capacity (es_pool s)"
  using engine_reachable_inv [of c e cfg n capacity s] by (auto simp: live_def ready_def einv_def coupled_def)

lemma pool_goes: "pool_quiet\<^sup>*\<^sup>* (es_pool s) q \<Longrightarrow> (quiet_step c e)\<^sup>*\<^sup>* s (s\<lparr>es_pool := q\<rparr>)"
proof (induction rule: rtranclp_induct)
  case (step p q)
  then have "quiet_step c e (s\<lparr>es_pool := p\<rparr>) (s\<lparr>es_pool := p\<rparr>\<lparr>es_pool := q\<rparr>)"
    using pool_works [of "s\<lparr>es_pool := p\<rparr>" q c e] by (simp add: quiet_step_def pool_quiet_def)
  then show ?case
    using step.IH by (simp add: rtranclp.rtrancl_into_rtrancl)
qed simp

lemma live_goes:
  assumes "live c e cfg n capacity ds s" "(quiet_step c e)\<^sup>*\<^sup>* s t" "few_given (es_pool t)" "es_ctx t" "es_arrived t = ds"
  shows "live c e cfg n capacity ds t"
  using assms quiet_reachable [OF assms(2)] by (simp add: live_def)

lemma live_pool:
  assumes "live c e cfg n capacity ds s" "pool_quiet\<^sup>*\<^sup>* (es_pool s) q" "ready cfg n capacity q"
  shows "live c e cfg n capacity ds (s\<lparr>es_pool := q\<rparr>)"
  using assms(1,3) by (intro live_goes [OF assms(1) pool_goes [OF assms(2)]]) (simp_all add: ready_def live_def)

fun cons_rank :: "consumer_pc \<Rightarrow> nat" where
  "cons_rank (CReturned err) = 0"
| "cons_rank CSelect = 1"
| "cons_rank (CSettling r) = 2"
| "cons_rank CDispatching = 2"
| "cons_rank (CPlacing m) = 3"

lemma live_step:
  assumes "live c e cfg n capacity ds s" "estep c e s t" "es_ctx t" "es_arrived t = ds"
    and "ps_ws (es_pool t) = ps_ws (es_pool s)" "cons_rank (es_cons t) < cons_rank (es_cons s)"
  shows "\<exists>t. (quiet_step c e)\<^sup>*\<^sup>* s t \<and> live c e cfg n capacity ds t \<and> cons_rank (es_cons t) < cons_rank (es_cons s)"
proof -
  have step: "quiet_step c e s t"
    using assms(1,2,4,5) by (simp add: quiet_step_def live_def)
  have "few_given (es_pool t)"
    using assms(1,5) by (simp add: live_def few_given_def)
  then show ?thesis
    using live_goes [OF assms(1) r_into_rtranclp [of "quiet_step c e", OF step] _ assms(3,4)] step assms(6) by blast
qed

interpretation cd: descent "quiet_step c e" "live c e cfg n capacity ds" "\<lambda>s. \<exists>err. es_cons s = CReturned err"
  "\<lambda>s. cons_rank (es_cons s)" for c e cfg n capacity ds
proof unfold_locales
  fix s
  assume keep: "live c e cfg n capacity ds s" and goal: "\<nexists>err. es_cons s = CReturned err"
  show "\<exists>t. (quiet_step c e)\<^sup>*\<^sup>* s t \<and> live c e cfg n capacity ds t \<and> cons_rank (es_cons t) < cons_rank (es_cons s)"
  proof (cases "es_cons s")
    case CSelect
    show ?thesis
      by (rule live_step [OF keep consume_cancelled [OF CSelect]]) (use keep CSelect in \<open>simp_all add: live_def\<close>)
  next
    case (CSettling r)
    show ?thesis
      by (rule live_step [OF keep settle_now [OF CSettling]]) (use keep CSettling in \<open>simp_all add: live_def\<close>)
  next
    case (CPlacing m)
    show ?thesis
      by (rule live_step [OF keep place [OF CPlacing refl]]) (use keep CPlacing in \<open>simp_all add: live_def\<close>)
  next
    case CDispatching
    obtain q where q: "pool_quiet\<^sup>*\<^sup>* (es_pool s) q" "ready cfg n capacity q" "ps_pick q = PIdle" "no_dispatch q"
      using dispatch_returns [OF live_ready [OF keep]] by blast
    let ?s = "s\<lparr>es_pool := q\<rparr>"
    have "\<exists>t. (quiet_step c e)\<^sup>*\<^sup>* ?s t \<and> live c e cfg n capacity ds t \<and> cons_rank (es_cons t) < cons_rank (es_cons ?s)"
      using CDispatching q(3,4) keep
      by (intro live_step [OF live_pool [OF keep q(1,2)] placed]) (simp_all add: live_def)
    then show ?thesis
      using pool_goes [OF q(1), of c e] by (auto intro: rtranclp_trans)
  qed (use goal in simp)
qed

section \<open>The last callbacks\<close>

definition holding :: "sys \<Rightarrow> bool" where
  "holding s \<longleftrightarrow> timers_hold (s_timers s) \<noteq> {#}"

lemma filter_update_less:
  assumes "i < length xs" "P (xs ! i)" "\<not> P y"
  shows "length (filter P (xs[i := y])) < length (filter P xs)"
proof -
  have "filter P xs = filter P (take i xs) @ filter P (xs ! i # drop (Suc i) xs)"
    by (subst id_take_nth_drop [OF assms(1)]) (simp only: filter_append)
  moreover have "filter P (xs[i := y]) = filter P (take i xs) @ filter P (y # drop (Suc i) xs)"
    by (simp only: upd_conv_take_nth_drop [OF assms(1)] filter_append)
  ultimately show ?thesis
    using assms(2,3) by simp
qed

definition returned :: "config \<Rightarrow> int \<Rightarrow> int \<Rightarrow> pool_sys \<Rightarrow> bool" where
  "returned cfg n capacity p \<longleftrightarrow> ready cfg n capacity p \<and> ps_shut p = ShReturned"

interpretation tr: descent pool_quiet "returned cfg n capacity" "\<lambda>p. \<forall>s \<in> set (ps_ws p). \<not> holding s"
  "\<lambda>p. length (filter holding (ps_ws p))" for cfg n capacity
proof unfold_locales
  fix p
  assume keep: "returned cfg n capacity p" and goal: "\<not> (\<forall>s \<in> set (ps_ws p). \<not> holding s)"
  then obtain i where i: "i < length (ps_ws p)" "holding (ps_ws p ! i)"
    by (auto simp: in_set_conv_nth)
  have ready: "ready cfg n capacity p"
    using keep by (simp add: returned_def)
  have at: "sound (ps_ws p ! i)" "s_ctx (ps_ws p ! i)"
    using ready_sound [OF ready] ready i(1) by (auto simp: ready_def)
  obtain t where t: "quiet_own\<^sup>*\<^sup>* (ps_ws p ! i) t" "timer_keeps (ps_ws p ! i) t" "timers_hold (s_timers t) = {#}"
    using timers_can_settle [OF at(1)] by blast
  have "ready cfg n capacity (set_worker i t p)"
    using t(2) at(2) by (intro ready_upd [OF ready t(1) i(1)]) (simp_all add: timer_keeps_def same_outside_def)
  then show "\<exists>q. pool_quiet\<^sup>*\<^sup>* p q \<and> returned cfg n capacity q \<and> length (filter holding (ps_ws q)) < length (filter holding (ps_ws p))"
    using pool_quiet_works [OF t(1) i(1)] keep filter_update_less [of i "ps_ws p" holding t] i t(3)
    by (intro exI [of _ "set_worker i t p"]) (simp add: returned_def holding_def)
qed

section \<open>The engine drained\<close>

lemma engine_returns:
  assumes "live c e cfg n capacity ds s" "es_cons s = CReturned err"
  shows "\<exists>t. (quiet_step c e)\<^sup>*\<^sup>* s t \<and> live c e cfg n capacity ds t \<and> returned cfg n capacity (es_pool t) \<and>
    es_cons t = es_cons s"
proof -
  obtain u where u: "(quiet_step c e)\<^sup>*\<^sup>* s u" "live c e cfg n capacity ds u" "ps_shut (es_pool u) \<noteq> ShIdle" "es_cons u = es_cons s"
  proof (cases "ps_shut (es_pool s) = ShIdle")
    case True
    let ?u = "s\<lparr>es_pool := (es_pool s)\<lparr>ps_shut := ShClose 0\<rparr>\<rparr>"
    have "quiet_step c e s ?u"
      using drain [OF assms(2) True] by (simp add: quiet_step_def)
    then have "live c e cfg n capacity ds ?u"
      using assms(1) by (intro live_goes [OF assms(1)]) (auto simp: live_def few_given_def)
    then show thesis
      using that [of ?u] \<open>quiet_step c e s ?u\<close> by auto
  next
    case False
    then show thesis
      using that [of s] assms(1) by simp
  qed
  obtain q where q: "pool_quiet\<^sup>*\<^sup>* (es_pool u) q" "ready cfg n capacity q" "ps_shut q = ShReturned"
    using shutdown_can_return [OF live_ready [OF u(2)] u(3)] by blast
  then show ?thesis
    using u(1) pool_goes [OF q(1), of c e] live_pool [OF u(2) q(1,2)] u(4)
    by (intro exI [of _ "u\<lparr>es_pool := q\<rparr>"]) (auto simp: returned_def)
qed

definition drained :: "engine_sys \<Rightarrow> bool" where
  "drained t \<longleftrightarrow> (\<exists>err. es_cons t = CReturned err) \<and> ps_shut (es_pool t) = ShReturned \<and>
     mset (map ad_tag (es_arrived t)) = mset (concat (map settled_by (system_requests t))) + refused_tags (es_pool t)"

text \<open>From every state of a cancelled run quiet steps lead to a drained one.\<close>

lemma live_can_drain:
  assumes "live c e cfg n capacity ds s"
  shows "\<exists>t. (quiet_step c e)\<^sup>*\<^sup>* s t \<and> drained t"
proof -
  obtain s2 err where s2: "(quiet_step c e)\<^sup>*\<^sup>* s s2" "live c e cfg n capacity ds s2" "es_cons s2 = CReturned err"
    using cd.reaches [OF assms] by blast
  obtain s3 where s3: "(quiet_step c e)\<^sup>*\<^sup>* s2 s3" "live c e cfg n capacity ds s3" "returned cfg n capacity (es_pool s3)"
      "es_cons s3 = es_cons s2"
    using engine_returns [OF s2(2,3)] by blast
  obtain q where q: "pool_quiet\<^sup>*\<^sup>* (es_pool s3) q" "returned cfg n capacity q" "\<forall>w \<in> set (ps_ws q). \<not> holding w"
    using tr.reaches [OF s3(3)] by blast
  define t where "t = s3\<lparr>es_pool := q\<rparr>"
  have "(quiet_step c e)\<^sup>*\<^sup>* s t"
    using s2(1) s3(1) pool_goes [OF q(1), of c e] unfolding t_def by (meson rtranclp_trans)
  moreover have t: "engine_reachable c e cfg n capacity t" "few_given (es_pool t)" "ps_shut (es_pool t) = ShReturned"
    using live_pool [OF s3(2) q(1)] q(2) by (auto simp: t_def live_def returned_def)
  moreover have "sum_list (map (\<lambda>w. image_mset snd (timers_hold (s_timers w))) (ps_ws (es_pool t))) = {#}"
    using q(3) by (simp add: t_def holding_def cong: map_cong)
  moreover have "es_cons t = CReturned err"
    using s2(3) s3(4) by (simp add: t_def)
  ultimately show ?thesis
    using drained_account [OF t] by (auto simp: drained_def)
qed

end
