(* ===== verification/Engine_Drain.thy ===== *)
theory Engine_Drain
  imports Engine_Liveness
begin

text \<open>
  A cancelled run ends, whatever the schedule. Under quiet steps of \<open>Engine_Machine\<close> (the broker delivers nothing
  more, the handlers send nothing more, but may end their output and exit) every step that changes the state lowers a lexicographic order
  of ranks: of the consumer, the shutdown, the scan, and the sums over the workers. With \<open>Engine_Liveness\<close>, no
  state before the drained one is without a step, so every run that goes on while it can ends drained.
\<close>

section \<open>One worker\<close>

fun closer_rank :: "closer_pc \<Rightarrow> nat" where
  "closer_rank CIdle = 3"
| "closer_rank (CStop cur) = 2"
| "closer_rank CDone = 1"
| "closer_rank CKilled = 0"

text \<open>A process may be spawned once more after the cancellation; when it is gone, the supervisor stops.\<close>

fun phase_rank :: "sup_pc \<Rightarrow> nat" where
  "phase_rank SStopped = 0"
| "phase_rank (SStale stale closing) = (if closing then 1 else 9)"
| "phase_rank (SWait pid) = 2"
| "phase_rank (SEnded pid) = 3"
| "phase_rank (SRead pid) = 4"
| "phase_rank (SEmit pid e chain) = 5"
| "phase_rank (SSettle pid i tag c) = 5"
| "phase_rank SSpawn = 6"
| "phase_rank SBackoff = 7"

fun stale_rank :: "sup_pc \<Rightarrow> nat" where
  "stale_rank (SStale stale closing) = length stale"
| "stale_rank _ = 0"

fun writer_rank :: "writer_pc \<Rightarrow> nat" where
  "writer_rank WRun = 2"
| "writer_rank WDrain = 1"
| "writer_rank WDone = 0"

definition proc_rank :: "proc \<Rightarrow> nat" where
  "proc_rank p = length (p_out p) + writer_rank (p_writer p) + (if p_exited p then 0 else 1)"

fun timer_rank :: "timer \<Rightarrow> nat" where
  "timer_rank TArmed = 3"
| "timer_rank TFiring = 2"
| "timer_rank (TNack tag) = 1"

definition timers_rank :: "(int64, timer) gomap \<Rightarrow> nat" where
  "timers_rank ts = sum_mset (image_mset (timer_rank \<circ> snd) (mset ts))"

definition worker_ranks :: "(sys \<Rightarrow> nat) list" where
  "worker_ranks =
     [\<lambda>s. disp_rank (s_disp s), \<lambda>s. closer_rank (s_closer s), \<lambda>s. phase_rank (s_sup s), \<lambda>s. stale_rank (s_sup s),
      \<lambda>s. sum_list (map proc_rank (s_procs s)), \<lambda>s. timers_rank (s_timers s)]"

lemma timers_rank_del: "map_of ts i = Some t \<Longrightarrow> timers_rank ts = timer_rank t + timers_rank (mdel i ts)"
  by (drule mset_mdel_present) (simp add: timers_rank_def)

lemma timers_rank_put:
  "mwf ts \<Longrightarrow> map_of ts i = Some t0 \<Longrightarrow> timers_rank (mput i t ts) = timer_rank t + timers_rank (mdel i ts)"
  by (simp add: timers_rank_def mset_mput_replace)

lemma on_proc_same: "f (s_procs s ! pid) = s_procs s ! pid \<Longrightarrow> on_proc pid f s = s"
  by (cases s) (simp add: on_proc_def)

lemma on_proc_rank:
  assumes "pid < length (s_procs s)" "proc_rank (f (s_procs s ! pid)) < proc_rank (s_procs s ! pid)"
  shows "sum_list (map proc_rank ((s_procs s)[pid := f (s_procs s ! pid)])) < sum_list (map proc_rank (s_procs s))"
  using sum_update [OF assms(1), of proc_rank "f (s_procs s ! pid)"] assms(2) by linarith

lemma quiet_own_lowers:
  assumes "quiet_own s t" "s_ctx s" "mwf (s_timers s)" "t \<noteq> s"
  shows "(t, s) \<in> measures worker_ranks"
proof -
  have "wstep s t"
    using assms(1) by (simp add: quiet_own_defs)
  then show ?thesis
  proof (cases rule: wstep.cases)
    case (write_note pid o' os)
    then show ?thesis
      using on_proc_rank [of pid s "\<lambda>p. p\<lparr>p_out := os, p_stdin := p_stdin p @ [o']\<rparr>"]
      by (simp add: worker_ranks_def proc_rank_def)
  next
    case (write_fails pid o' os)
    then show ?thesis
      using on_proc_rank [of pid s "\<lambda>p. p\<lparr>p_out := os\<rparr>"] by (simp add: worker_ranks_def proc_rank_def)
  next
    case (writer_stop pid)
    then show ?thesis
      using on_proc_rank [of pid s "\<lambda>p. p\<lparr>p_writer := WDrain\<rparr>"] by (simp add: worker_ranks_def proc_rank_def)
  next
    case (writer_done pid)
    then show ?thesis
      using on_proc_rank [of pid s "\<lambda>p. p\<lparr>p_writer := WDone\<rparr>"] by (simp add: worker_ranks_def proc_rank_def)
  next
    case (proc_exit pid)
    have "\<not> p_exited (s_procs s ! pid)"
      using proc_exit(1) assms(4) on_proc_same [of "\<lambda>p. p\<lparr>p_exited := True\<rparr>" s pid] by auto
    then show ?thesis
      using proc_exit on_proc_rank [of pid s "\<lambda>p. p\<lparr>p_exited := True\<rparr>"] by (simp add: worker_ranks_def proc_rank_def)
  next
    case (timer_fires i)
    then show ?thesis
      using assms(3) timers_rank_del [of "s_timers s" i TArmed] by (simp add: worker_ranks_def timers_rank_put)
  next
    case (timeout_hit i m w')
    then show ?thesis
      using assms(3) timers_rank_del [of "s_timers s" i TFiring] by (simp add: worker_ranks_def timers_rank_put)
  next
    case (timeout_miss i w')
    then show ?thesis
      using timers_rank_del [of "s_timers s" i TFiring] by (simp add: worker_ranks_def)
  next
    case (timeout_settled i tag)
    then show ?thesis
      using timers_rank_del [of "s_timers s" i "TNack tag"] by (simp add: worker_ranks_def)
  next
    case ctx_cancel
    then show ?thesis
      using assms(2,4) by (cases s) simp
  qed (use assms(1,2) in \<open>auto simp: worker_ranks_def quiet_own_defs step_defs refuses_def shuttingDown_def\<close>)
qed

section \<open>The pool\<close>

fun closing_rank :: "nat \<Rightarrow> shut_pc \<Rightarrow> nat" where
  "closing_rank n ShIdle = 4 + 3 * n"
| "closing_rank n (ShClose i) = 3 + 2 * n + (n - i)"
| "closing_rank n (ShWait i) = 2 + 2 * (n - i)"
| "closing_rank n (ShKilled i) = 1 + 2 * (n - i)"
| "closing_rank n ShReturned = 0"

definition pool_ranks :: "(pool_sys \<Rightarrow> nat) list" where
  "pool_ranks =
     [\<lambda>p. closing_rank (length (ps_ws p)) (ps_shut p), \<lambda>p. if ps_expired p then 0 else 1, pick_rank] @
     onto ps_ws (sums worker_ranks)"

lemma set_worker_ranks:
  assumes "i < length (ps_ws p)" "(s, ps_ws p ! i) \<in> measures worker_ranks"
  shows "(set_worker i s p, p) \<in> measures pool_ranks"
  unfolding pool_ranks_def
  using measures_update [OF assms] by (intro measures_append) (simp_all add: pick_rank_def set_worker_def split: pick_pc.split)

lemma all_cancelled: "\<forall>s \<in> set ws. s_ctx s \<Longrightarrow> map (\<lambda>s. s\<lparr>s_ctx := True\<rparr>) ws = ws"
proof -
  have "s_ctx s \<Longrightarrow> s\<lparr>s_ctx := True\<rparr> = s" for s :: sys
    by (cases s) simp
  then show "\<forall>s \<in> set ws. s_ctx s \<Longrightarrow> map (\<lambda>s. s\<lparr>s_ctx := True\<rparr>) ws = ws"
    by (simp add: map_idI)
qed

lemma pool_quiet_lowers:
  assumes "pool_quiet p q" "ready cfg n capacity p" "q \<noteq> p"
  shows "(q, p) \<in> measures pool_ranks"
proof -
  have ctx: "\<forall>s \<in> set (ps_ws p). s_ctx s"
    using assms(2) by (simp add: ready_def)
  have "pstep p q"
    using assms(1) by (simp add: pool_quiet_defs)
  then show ?thesis
  proof (cases rule: pstep.cases)
    case (work i s)
    have at: "ps_ws p ! i \<in> set (ps_ws p)"
      using work(2) by simp
    have "map s_reads (ps_ws q) ! i = map s_reads (ps_ws p) ! i"
      using assms(1) by (simp only: pool_quiet_def)
    then have "quiet_own (ps_ws p ! i) s"
      using work by (simp add: quiet_own_def)
    moreover have "mwf (s_timers (ps_ws p ! i))"
      using ready_sound [OF assms(2) at] sound_inv by (auto simp: winv_def wf_maps_def)
    moreover have "s \<noteq> ps_ws p ! i"
      using assms(3) work(1) set_worker_same by auto
    ultimately show ?thesis
      using quiet_own_lowers at ctx work(1,2) by (auto intro: set_worker_ranks)
  next
    case cancel
    then show ?thesis
      using assms(3) all_cancelled [OF ctx] by (cases p) simp
  next
    case (pick_next d best seen k)
    then show ?thesis
      by (simp add: pool_ranks_def pick_rank_def)
  next
    case (pick_done d best seen i)
    then show ?thesis
      by (simp add: pool_ranks_def pick_rank_def set_worker_def)
  next
    case (close_one i cur w')
    then have "((ps_ws p ! i)\<lparr>s_w := w', s_closer := CStop cur\<rparr>, ps_ws p ! i) \<in> measures worker_ranks"
      by (simp add: worker_ranks_def)
    then show ?thesis
      using close_one(1,3) by (simp add: set_worker_ranks)
  next
    case grace_over
    then show ?thesis
      using assms(3) by (cases p) (auto simp: pool_ranks_def)
  next
    case (wait_kill i s)
    then show ?thesis
      by (simp add: pool_ranks_def set_worker_def)
  qed (use assms(1) in \<open>auto simp: pool_ranks_def pool_quiet_defs\<close>)
qed

section \<open>The engine\<close>

definition engine_ranks :: "(engine_sys \<Rightarrow> nat) list" where
  "engine_ranks = (\<lambda>s. cons_rank (es_cons s)) # onto es_pool pool_ranks"

lemma live_cancelled:
  assumes "live c e cfg n capacity ds s"
  shows "\<forall>w \<in> set (ps_ws (es_pool s)). s_ctx w"
  using live_ready [OF assms] by (simp add: ready_def)

lemma quiet_lowers:
  assumes "live c e cfg n capacity ds s" "quiet_step c e s t" "t \<noteq> s"
  shows "(t, s) \<in> measures engine_ranks"
proof -
  have "estep c e s t"
    using assms(2) by (simp add: quiet_step_def)
  then show ?thesis
  proof (cases rule: estep.cases)
    case (pool_works p)
    then have "pool_quiet (es_pool s) p" "p \<noteq> es_pool s"
      using assms(2,3) by (auto simp: quiet_step_def pool_quiet_def)
    then show ?thesis
      using pool_quiet_lowers [of "es_pool s" p] live_ready [OF assms(1)] pool_works(1) by (simp add: engine_ranks_def)
  next
    case cancelled
    then have "t = s"
      using all_cancelled [OF live_cancelled [OF assms(1)]] assms(1) by (simp add: cancel_pool_def live_def)
    then show ?thesis
      using assms(3) by simp
  next
    case (drain err)
    then show ?thesis
      by (simp add: engine_ranks_def pool_ranks_def)
  qed (use assms(2) in \<open>auto simp: engine_ranks_def quiet_step_def\<close>)
qed

text \<open>A cancelled run is handed nothing more, so its ids stay few.\<close>

lemma ctx_given: "wstep s t \<Longrightarrow> s_ctx s \<Longrightarrow> s_given t = s_given s"
  by (erule wstep.cases) (auto simp: step_defs refuses_def)

lemma pool_quiet_given:
  assumes "pool_quiet p q" "\<forall>s \<in> set (ps_ws p). s_ctx s"
  shows "map s_given (ps_ws q) = map s_given (ps_ws p)"
proof -
  have "pstep p q"
    using assms(1) by (simp add: pool_quiet_defs)
  then show ?thesis
  proof (cases rule: pstep.cases)
    case (work i s)
    then have "s_given s = s_given (ps_ws p ! i)"
      using ctx_given [of "ps_ws p ! i" s] assms(2) by (simp add: own_step_def)
    then show ?thesis
      using work(1) by (simp add: map_update_same)
  next
    case (wait_kill i s)
    then have "s_given s = s_given (ps_ws p ! i)"
      using ctx_given [of "ps_ws p ! i" s] assms(2) by simp
    then show ?thesis
      using wait_kill(1) by (simp add: map_update_same)
  qed (simp_all add: map_update_same comp_def)
qed

lemma quiet_live:
  assumes "live c e cfg n capacity ds s" "quiet_step c e s t"
  shows "live c e cfg n capacity ds t"
proof -
  have few: "few_given p \<longleftrightarrow> (\<forall>g \<in> set (map s_given (ps_ws p)). length g < 2 ^ 64)" for p
    by (simp add: few_given_def)
  have "estep c e s t"
    using assms(2) by (simp add: quiet_step_def)
  then have "map s_given (ps_ws (es_pool t)) = map s_given (ps_ws (es_pool s)) \<and> es_ctx t"
  proof (cases rule: estep.cases)
    case (pool_works p)
    then have "pool_quiet (es_pool s) p"
      using assms(2) by (auto simp: quiet_step_def pool_quiet_def)
    then show ?thesis
      using pool_quiet_given live_cancelled [OF assms(1)] pool_works(1) assms(1) by (simp add: live_def)
  qed (use assms(1) in \<open>simp_all add: live_def cancel_pool_def comp_def\<close>)
  moreover have "es_arrived t = es_arrived s"
    using assms(2) by (simp add: quiet_step_def)
  ultimately show ?thesis
    using assms live_goes [OF assms(1) r_into_rtranclp [of "quiet_step c e", OF assms(2)]]
    by (simp add: live_def few)
qed

interpretation wd: winds_down "quiet_step c e" "live c e cfg n capacity ds" engine_ranks for c e cfg n capacity ds
  by unfold_locales (blast intro: quiet_live quiet_lowers)+

section \<open>The theorem\<close>

lemma ex_cancelled_few: "few_given (es_pool (ex_cancelled body))"
proof -
  have "\<forall>k \<in> set (map (\<lambda>s. length (s_given s)) (ps_ws (es_pool (ex_cancelled body)))). k = 1"
    by (simp add: ex_cancelled_given)
  then show ?thesis
    by (auto simp: few_given_def)
qed

text \<open>C4: once the run is cancelled, while the broker delivers nothing more and the handlers send nothing more (each may
  end its output and exit at any moment), every schedule of the consumer, the open \<open>Dispatch\<close>, the workers, the timers,
  the shutdown and the exits of handler processes is finite. One that goes on until nothing is left to happen, the exits
  of the handler processes included, exists, and each such schedule has \<open>Consume\<close> and \<open>Shutdown\<close> returned and every
  delivery that had arrived settled, or refused and left with the broker: none gets stuck before that. A handler that
  never exits is outside the claim, since its exit is then left to happen.\<close>

theorem engine_drains:
  assumes "engine_reachable c e cfg n capacity s" "few_given (es_pool s)" "es_ctx s"
  shows "(\<nexists>run. run 0 = s \<and> (\<forall>k. quiet_step c e (run k) (run (Suc k)) \<and> run (Suc k) \<noteq> run k)) \<and>
    (\<exists>t. (quiet_step c e)\<^sup>*\<^sup>* s t \<and> (\<nexists>u. quiet_step c e t u \<and> u \<noteq> t)) \<and>
    (\<forall>t. (quiet_step c e)\<^sup>*\<^sup>* s t \<and> (\<nexists>u. quiet_step c e t u \<and> u \<noteq> t) \<longrightarrow>
      (\<exists>err. es_cons t = CReturned err) \<and> ps_shut (es_pool t) = ShReturned \<and> es_arrived t = es_arrived s \<and>
      mset (map ad_tag (es_arrived s)) = mset (concat (map settled_by (system_requests t))) + refused_tags (es_pool t))"
proof -
  have live: "live c e cfg n capacity (es_arrived s) s"
    using assms by (simp add: live_def)
  have ended: "drained t \<and> es_arrived t = es_arrived s" if t: "(quiet_step c e)\<^sup>*\<^sup>* s t" "\<nexists>u. quiet_step c e t u \<and> u \<noteq> t" for t
  proof -
    have at: "live c e cfg n capacity (es_arrived s) t"
      by (rule wd.keeps_run [OF t(1) live])
    then show ?thesis
      using live_can_drain [OF at] ended_stays [of "quiet_step c e" t] t(2) by (auto simp: live_def)
  qed
  show ?thesis
  proof (intro conjI allI impI)
    show "\<nexists>run. run 0 = s \<and> (\<forall>k. quiet_step c e (run k) (run (Suc k)) \<and> run (Suc k) \<noteq> run k)"
      by (rule wd.never_for_ever [OF live])
    show "\<exists>t. (quiet_step c e)\<^sup>*\<^sup>* s t \<and> (\<nexists>u. quiet_step c e t u \<and> u \<noteq> t)"
      by (rule wd.has_end [OF live])
    fix t
    assume "(quiet_step c e)\<^sup>*\<^sup>* s t \<and> (\<nexists>u. quiet_step c e t u \<and> u \<noteq> t)"
    then have "drained t" and same: "es_arrived t = es_arrived s"
      using ended by blast+
    then show "\<exists>err. es_cons t = CReturned err" "ps_shut (es_pool t) = ShReturned"
        "mset (map ad_tag (es_arrived s)) = mset (concat (map settled_by (system_requests t))) + refused_tags (es_pool t)"
      by (simp_all add: drained_def)
    show "es_arrived t = es_arrived s"
      by (rule same)
  qed
qed

theorem engine_drains_witness:
  "\<exists>t. (quiet_step ex_lib (engine_of ex_manifest ex_settings))\<^sup>*\<^sup>* (ex_cancelled ex_envelope) t \<and>
    (\<nexists>u. quiet_step ex_lib (engine_of ex_manifest ex_settings) t u \<and> u \<noteq> t) \<and> ps_shut (es_pool t) = ShReturned \<and>
    {#7, 9, 8, 10#} = mset (concat (map settled_by (system_requests t))) + refused_tags (es_pool t)"
proof -
  obtain t where t: "(quiet_step ex_lib (engine_of ex_manifest ex_settings))\<^sup>*\<^sup>* (ex_cancelled ex_envelope) t"
      "\<nexists>u. quiet_step ex_lib (engine_of ex_manifest ex_settings) t u \<and> u \<noteq> t"
    using engine_drains [OF ex_cancelled_reachable ex_cancelled_few ex_cancelled_ctx] by blast
  then have "ps_shut (es_pool t) = ShReturned" "mset (map ad_tag (es_arrived (ex_cancelled ex_envelope))) =
      mset (concat (map settled_by (system_requests t))) + refused_tags (es_pool t)"
    using engine_drains [OF ex_cancelled_reachable ex_cancelled_few ex_cancelled_ctx] by blast+
  then show ?thesis
    using t unfolding ex_cancelled_arrived by (intro exI [of _ t]) simp
qed

end
