(* ===== verification/Engine_Emits.thy ===== *)
theory Engine_Emits
  imports Engine_System
begin

text \<open>
  What the running engine publishes. A chain follows a message from the envelope it arrived in, through admission,
  \<open>Dispatch\<close> and the worker's map, to the emits that answer it; no emit carries the chain of a message that was
  not admitted. With the hop of \<open>Admission\<close> this makes the limits hold along the way of a message.
\<close>

section \<open>The messages the workers were handed are those the consumer dispatched\<close>

fun awaiting :: "disp_pc \<Rightarrow> delivery set" where
  "awaiting (DWait d) = {d}"
| "awaiting _ = {}"

definition received :: "sys \<Rightarrow> delivery set" where
  "received s = snd ` set (s_given s) \<union> awaiting (s_disp s)"

fun picking :: "pick_pc \<Rightarrow> delivery set" where
  "picking (PScan d best seen) = {d}"
| "picking PIdle = {}"

definition pool_received :: "pool_sys \<Rightarrow> delivery set" where
  "pool_received p = (\<Union>s \<in> set (ps_ws p). received s) \<union> picking (ps_pick p)"

lemma step_received:
  assumes "wstep s t" "s_disp s = DIdle \<longrightarrow> s_disp t = DIdle"
  shows "received t \<subseteq> received s"
  using assms by (cases rule: wstep.cases) (auto simp: received_def step_defs claim_iffs register_def)

lemma received_update:
  "received s \<subseteq> received (xs ! i) \<union> D \<Longrightarrow> (\<Union>s \<in> set (xs[i := s]). received s) \<subseteq> (\<Union>s \<in> set xs. received s) \<union> D"
  by (cases "i < length xs") (auto simp: list_update_beyond dest!: set_update_subset_insert [THEN subsetD] dest: nth_mem)

lemma pool_own_received:
  assumes "pool_own p q"
  shows "pool_received q \<subseteq> pool_received p"
proof -
  have "pstep p q"
    using assms by (simp add: pool_own_def)
  then show ?thesis
  proof (cases rule: pstep.cases)
    case (work i s)
    then have "received s \<subseteq> received (ps_ws p ! i)"
      by (intro step_received) (simp_all add: own_step_def)
    then show ?thesis
      using received_update [of s "ps_ws p" i "{}"] work(1) by (auto simp: pool_received_def)
  next
    case cancel
    then show ?thesis
      by (simp add: pool_received_def received_def)
  next
    case (pick_done d best seen i)
    have "received ((ps_ws p ! i)\<lparr>s_disp := DWait d\<rparr>) \<subseteq> received (ps_ws p ! i) \<union> {d}"
      by (auto simp: received_def)
    then have "(\<Union>s \<in> set ((ps_ws p)[i := (ps_ws p ! i)\<lparr>s_disp := DWait d\<rparr>]). received s) \<subseteq>
        (\<Union>s \<in> set (ps_ws p). received s) \<union> {d}"
      by (rule received_update)
    then show ?thesis
      using pick_done(1,2) unfolding pool_received_def by simp
  next
    case (close_one i cur w')
    have "received ((ps_ws p ! i)\<lparr>s_w := w', s_closer := CStop cur\<rparr>) \<subseteq> received (ps_ws p ! i) \<union> {}"
      by (simp add: received_def)
    then have "(\<Union>s \<in> set (ps_ws q). received s) \<subseteq> (\<Union>s \<in> set (ps_ws p). received s) \<union> {}"
      unfolding close_one(1) set_worker_simps by (rule received_update)
    then show ?thesis
      using close_one(1) unfolding pool_received_def by auto
  next
    case (wait_kill i s)
    then have "received s \<subseteq> received (ps_ws p ! i)"
      using kill_frame [OF wait_kill(5-7)] by (intro step_received) simp_all
    then show ?thesis
      using received_update [of s "ps_ws p" i "{}"] wait_kill(1) by (auto simp: pool_received_def)
  qed (use assms in \<open>auto simp: pool_received_def pool_own_def\<close>)
qed

definition only_dispatched :: "engine_sys \<Rightarrow> bool" where
  "only_dispatched s \<longleftrightarrow> pool_received (es_pool s) \<subseteq> set (es_dispatched s)"

lemma estep_only_dispatched:
  assumes "estep c e s t" "only_dispatched s"
  shows "only_dispatched t"
  using assms(1)
proof (cases rule: estep.cases)
  case (pool_works p)
  then show ?thesis
    using pool_own_received [of "es_pool s" p] assms(2) by (auto simp: only_dispatched_def)
next
  case cancelled
  then show ?thesis
    using assms(2) by (simp add: only_dispatched_def pool_received_def received_def cancel_pool_def)
qed (use assms(2) in \<open>auto simp: only_dispatched_def pool_received_def\<close>)

interpretation ed: machine_plus "start_engine cfg n capacity" "estep c e" "\<lambda>_. True" "einv c e cfg n capacity" only_dispatched
  for c e cfg n capacity
proof unfold_locales
  show "only_dispatched (start_engine cfg n capacity)"
    by (auto simp: only_dispatched_def pool_received_def received_def start_engine_def start_pool_def init_sys_def)
qed (rule estep_only_dispatched)

lemma given_dispatched:
  assumes "engine_reachable c e cfg n capacity s" "w \<in> set (ps_ws (es_pool s))" "(i, m) \<in> set (s_given w)"
  shows "m \<in> set (es_dispatched s)"
proof -
  have "only_dispatched s"
    using assms(1) unfolding engine_reachable_def by (blast intro: ed.reach_more TrueI)
  moreover have "m \<in> received w"
    using assms(3) by (force simp: received_def)
  ultimately show ?thesis
    using assms(2) by (auto simp: only_dispatched_def pool_received_def)
qed

text \<open>A dispatched message is an arrival that could be unwrapped and was admitted, with the chain of its envelope.\<close>

definition admits :: "engine \<Rightarrow> string list \<Rightarrow> bool" where
  "admits e chain \<longleftrightarrow> fst (admit chain (en_agent e) (en_cyclic e) (en_depth e) (en_accepted e))"

lemma dispatched_admitted:
  assumes "engine_reachable c e cfg n capacity s" "m \<in> set (es_dispatched s)"
  shows "\<exists>d \<in> set (es_arrived s). \<exists>inner. unwrapControl c (ad_body d) = Inr (d_chain m, inner) \<and> admits e (d_chain m)"
proof -
  have "m \<in> set (concat (map placed_of (treated c e s)))"
    using engine_reachable_inv [OF assms(1)] assms(2) by (simp add: einv_def consumer_ok_def)
  then obtain d where d: "d \<in> set (es_arrived s)" "m \<in> set (placed_of (effect_of e (dispatch c d)))"
    by (auto simp: treated_def)
  then have "effect_of e (dispatch c d) = DispatchToPool m"
    by (cases "effect_of e (dispatch c d)") auto
  then show ?thesis
    using dispatch_treats [of c e d] d(1) by (auto simp: treats_def admits_def split: if_splits)
qed

section \<open>The theorem\<close>

lemma engine_emit:
  assumes "engine_reachable c e cfg n capacity s" "few_given (es_pool s)" "w \<in> set (ps_ws (es_pool s))"
    and "(i, chain, sel, data) \<in> set (s_published w)"
  shows "sel \<in> set (c_outputs cfg) \<and>
    (chain = [] \<or> (\<exists>d \<in> set (es_arrived s). \<exists>inner. unwrapControl c (ad_body d) = Inr (chain, inner) \<and> admits e chain))"
proof -
  have "pool_reachable cfg n capacity (es_pool s)"
    using engine_reachable_inv [OF assms(1)] by (simp add: einv_def)
  then obtain k where "reachable k cfg (at_least_one capacity) w"
    using pool_workers assms(3) by blast
  moreover have "length (s_given w) < 2 ^ 64"
    using assms(2,3) by (simp add: few_given_def)
  ultimately have "sel \<in> set (c_outputs cfg) \<and> (chain = [] \<or> (\<exists>m. (i, m) \<in> set (s_given w) \<and> chain = d_chain m))"
    using assms(4) by (rule publishes_declared_with_chain)
  then show ?thesis
    using given_dispatched [OF assms(1,3)] dispatched_admitted [OF assms(1)] by blast
qed

text \<open>C5: whatever the engine publishes goes out on a declared output and carries either no chain or the chain of a delivery
  that arrived, was unwrapped and was admitted under the engine's limits. So no message goes on that the flow control
  should have stopped: the chain it is published with, this agent appended, is one hop further on an admissible way.\<close>

theorem engine_emits_follow_admitted:
  assumes "engine_reachable c e cfg n capacity s" "few_given (es_pool s)" "w \<in> set (ps_ws (es_pool s))"
    and "(i, chain, sel, data) \<in> set (s_published w)"
    and "lims (en_agent e) = \<lparr>li_cyclic = en_cyclic e, li_depth = en_depth e, li_accepted = en_accepted e\<rparr>"
    and "\<forall>d \<in> set (es_arrived s). \<forall>agents inner. unwrapControl c (ad_body d) = Inr (agents, inner) \<longrightarrow> travels lims agents"
  shows "sel \<in> set (c_outputs cfg) \<and>
    (chain = [] \<or> (\<exists>d \<in> set (es_arrived s). \<exists>inner. unwrapControl c (ad_body d) = Inr (chain, inner) \<and>
      fst (admit chain (en_agent e) (en_cyclic e) (en_depth e) (en_accepted e)))) \<and>
    travels lims (chain @ [en_agent e])"
proof -
  note emit = engine_emit [OF assms(1-4)]
  have "admits e []"
    by (simp add: admits_def admit_def to_uint32_def)
  then have "travels lims chain" "admits e chain"
    using emit assms(6) by (auto intro: travels.origin)
  then have "travels lims (chain @ [en_agent e])"
    using assms(5) by (intro travels.hop) (simp_all add: admits_def)
  then show ?thesis
    using emit by (simp add: admits_def)
qed

text \<open>An example: the handler answers the first message with an emit.\<close>

definition ex_emit_run :: "bytes \<Rightarrow> engine_event list" where
  "ex_emit_run body = map VPool ex_both_up @ ex_take body 7 0 @
     [VPool (PWork 0 (ERead (HEmit ex_emit))), VPool (PWork 0 (EPublish None))]"

definition ex_emitting :: "bytes \<Rightarrow> engine_sys" where
  "ex_emitting body = the (efire_all ex_treat (ex_emit_run body) (start_engine ex_cfg 2 1))"

definition ex_open_limits :: "string \<Rightarrow> limits" where
  "ex_open_limits a = \<lparr>li_cyclic = 0, li_depth = 0, li_accepted = []\<rparr>"

lemma ex_emit_runs: "efire_all ex_treat (ex_emit_run body) (start_engine ex_cfg 2 1) \<noteq> None"
  by code_simp

lemma ex_emitting_published:
  "s_published (ps_ws (es_pool (ex_emitting body)) ! 0) = [(1, [''agent/upstream''], ''v3.report.vuln'', Some [])]"
  by code_simp

lemma ex_emitting_workers: "map (\<lambda>s. length (s_given s)) (ps_ws (es_pool (ex_emitting body))) = [1, 0]"
  by code_simp

lemma ex_emitting_arrived: "es_arrived (ex_emitting body) = [ex_arriving body 7]"
  by code_simp

lemma ex_emitting_reachable:
  "engine_reachable ex_lib (engine_of ex_manifest ex_settings) ex_cfg 2 1 (ex_emitting ex_envelope)"
proof -
  have same: "ex_arriving ex_envelope tag = ex_arrival tag" for tag
    by (simp add: ex_arriving_def ex_arrival_def)
  have "list_all (agrees ex_lib (engine_of ex_manifest ex_settings) ex_treat) (ex_emit_run ex_envelope)"
    using ex_arrival_dispatched by (auto simp: ex_emit_run_def ex_take_def list_all_iff same)
      (simp_all add: ex_treat_def ex_arrival_def)
  moreover obtain s where "efire_all ex_treat (ex_emit_run ex_envelope) (start_engine ex_cfg 2 1) = Some s"
    using ex_emit_runs by blast
  ultimately show ?thesis
    using engine_reachable_by by (metis ex_emitting_def option.sel)
qed

lemma ex_emitting_few: "few_given (es_pool (ex_emitting body))"
proof -
  have "\<forall>k \<in> set (map (\<lambda>s. length (s_given s)) (ps_ws (es_pool (ex_emitting body)))). k \<le> 1"
    by (simp add: ex_emitting_workers)
  then show ?thesis
    by (auto simp: few_given_def intro: order_le_less_trans)
qed

lemma ex_emitting_travels:
  assumes "d \<in> set (es_arrived (ex_emitting ex_envelope))" "unwrapControl ex_lib (ad_body d) = Inr (agents, inner)"
  shows "travels ex_open_limits agents"
proof -
  obtain body where "wrapControl ex_lib [''agent/upstream''] ex_wire_data = Inr body"
      "unwrapControl ex_lib body = Inr ([''agent/upstream''], ex_wire_data)"
    using unwrap_wrap_ok [OF ex_lib_faithful ex_lib_control ex_upstream_valid] by blast
  then have "agents = [''agent/upstream'']"
    using assms by (simp add: ex_emitting_arrived ex_arriving_def ex_envelope_def)
  moreover have "travels ex_open_limits ([] @ [''agent/upstream''])"
    by (intro travels.intros) (simp add: admit_def ex_open_limits_def)
  ultimately show ?thesis
    by simp
qed

theorem engine_emits_follow_admitted_witness:
  "''v3.report.vuln'' \<in> set (c_outputs ex_cfg) \<and> travels ex_open_limits [''agent/upstream'', ''agent/test'']"
proof -
  let ?ws = "ps_ws (es_pool (ex_emitting ex_envelope))"
  have "length ?ws = 2"
    using arg_cong [OF ex_emitting_workers [of ex_envelope], of length] by simp
  then have member: "?ws ! 0 \<in> set ?ws"
    by (intro nth_mem) simp
  have "en_agent (engine_of ex_manifest ex_settings) = ''agent/test''"
    by (simp add: engine_of_def ex_manifest_def)
  then show ?thesis
    using engine_emits_follow_admitted [OF ex_emitting_reachable ex_emitting_few member, of 1 "[''agent/upstream'']"
        "''v3.report.vuln''" "Some []" ex_open_limits] ex_emitting_travels
    by (simp add: ex_emitting_published ex_open_limits_def engine_of_def ex_settings_def)
qed

end
