(* ===== verification/Go_Time.thy ===== *)
theory Go_Time
  imports Go_Float
begin

text \<open>
  \<open>time.ParseDuration\<close> of Go's standard library, which the program reads its durations with. A duration is
  a number of nanoseconds in the range of \<open>int64\<close>. The code computes in \<open>uint64\<close>; its own checks keep every
  number below within the width, except the sum of two segments of \<open>2 ^ 63\<close> each, which wraps around to 0 and
  is written out. The fraction of a segment goes through \<open>float64\<close>, on the bits of \<open>Go_Float\<close>.
\<close>

section \<open>Positive floats\<close>

definition f_round :: "nat \<times> nat \<Rightarrow> nat" where
  "f_round r = min inf_bits (nearest r)"

definition f_of_nat :: "nat \<Rightarrow> nat" where
  "f_of_nat n = f_round (n, 1)"

definition f_mul :: "nat \<Rightarrow> nat \<Rightarrow> nat" where
  "f_mul a b =
     (if a = inf_bits \<or> b = inf_bits then inf_bits
      else f_round (fst (magnitude a) * fst (magnitude b), snd (magnitude a) * snd (magnitude b)))"

definition f_div :: "nat \<Rightarrow> nat \<Rightarrow> nat" where
  "f_div a b =
     (if b = inf_bits then 0
      else f_round (fst (magnitude a) * snd (magnitude b), snd (magnitude a) * fst (magnitude b)))"

definition f_trunc :: "nat \<Rightarrow> nat" where
  "f_trunc a = fst (magnitude a) div snd (magnitude a)"

section \<open>ParseDuration\<close>

fun leadingInt :: "nat \<Rightarrow> string \<Rightarrow> (nat \<times> string) option" where
  "leadingInt x [] = Some (x, [])"
| "leadingInt x (c # s) =
     (if \<not> is_digit c then Some (x, c # s)
      else if 2 ^ 63 div 10 < x then None
      else if 2 ^ 63 < 10 * x + digit_val c then None
      else leadingInt (10 * x + digit_val c) s)"

text \<open>The digits after the point: their number, and the power of ten to divide it by. Digits that no longer fit are
  skipped.\<close>

fun leadingFraction :: "nat \<Rightarrow> nat \<Rightarrow> bool \<Rightarrow> string \<Rightarrow> nat \<times> nat \<times> string" where
  "leadingFraction x scale overflow [] = (x, scale, [])"
| "leadingFraction x scale overflow (c # s) =
     (if \<not> is_digit c then (x, scale, c # s)
      else if overflow then leadingFraction x scale True s
      else if (2 ^ 63 - 1) div 10 < x then leadingFraction x scale True s
      else if 2 ^ 63 < 10 * x + digit_val c then leadingFraction x scale True s
      else leadingFraction (10 * x + digit_val c) (f_mul scale (f_of_nat 10)) False s)"

text \<open>The units; the micro sign and the Greek mu are both accepted.\<close>

definition unitMap :: "(string \<times> nat) list" where
  "unitMap = [(''ns'', 1), (''us'', 10 ^ 3), ([CHR 0xC2, CHR 0xB5, CHR ''s''], 10 ^ 3),
     ([CHR 0xCE, CHR 0xBC, CHR ''s''], 10 ^ 3), (''ms'', 10 ^ 6), (''s'', 10 ^ 9),
     (''m'', 60 * 10 ^ 9), (''h'', 3600 * 10 ^ 9)]"

definition unit_char :: "char \<Rightarrow> bool" where
  "unit_char c \<longleftrightarrow> c \<noteq> CHR ''.'' \<and> \<not> is_digit c"

text \<open>One segment, a number and its unit: its nanoseconds and what follows it.\<close>

definition segment_value :: "nat \<Rightarrow> nat \<Rightarrow> nat \<Rightarrow> nat \<Rightarrow> nat option" where
  "segment_value v f scale unit =
     (if 2 ^ 63 div unit < v then None
      else if f = 0 then Some (v * unit)
      else (let n = v * unit + f_trunc (f_mul (f_of_nat f) (f_div (f_of_nat unit) scale))
            in if 2 ^ 63 < n then None else Some n))"

definition fraction_of :: "string \<Rightarrow> nat \<times> nat \<times> bool \<times> string" where
  "fraction_of s =
     (case s of
        [] \<Rightarrow> (0, f_of_nat 1, False, [])
      | c # t \<Rightarrow>
          if c = CHR ''.'' then
            (case leadingFraction 0 (f_of_nat 1) False t of (f, scale, t') \<Rightarrow> (f, scale, length t' \<noteq> length t, t'))
          else (0, f_of_nat 1, False, s))"

definition segment :: "string \<Rightarrow> (nat \<times> string) option" where
  "segment s =
     (if s = [] \<or> \<not> (hd s = CHR ''.'' \<or> is_digit (hd s)) then None
      else case leadingInt 0 s of
        None \<Rightarrow> None
      | Some (v, s1) \<Rightarrow>
          (case fraction_of s1 of (f, scale, post, s2) \<Rightarrow>
             if \<not> (length s1 \<noteq> length s \<or> post) then None
             else (let u = takeWhile unit_char s2; s3 = dropWhile unit_char s2
                   in if u = [] then None
                      else case map_of unitMap u of
                        None \<Rightarrow> None
                      | Some unit \<Rightarrow> map_option (\<lambda>n. (n, s3)) (segment_value v f scale unit))))"

lemma leadingInt_shorter: "leadingInt x s = Some (v, t) \<Longrightarrow> length t \<le> length s"
  by (induction x s rule: leadingInt.induct) (auto split: if_splits)

lemma leadingFraction_shorter: "leadingFraction x scale ovf s = (f, sc, t) \<Longrightarrow> length t \<le> length s"
  by (induction x scale ovf s rule: leadingFraction.induct) (auto split: if_splits)

lemma fraction_of_shorter: "fraction_of s = (f, sc, post, t) \<Longrightarrow> length t \<le> length s"
  by (auto simp: fraction_of_def split: list.splits if_splits prod.splits dest: leadingFraction_shorter)

lemma dropWhile_shorter: "takeWhile P s \<noteq> [] \<Longrightarrow> length (dropWhile P s) < length s"
  by (cases s) (auto simp: length_dropWhile_le le_imp_less_Suc split: if_splits)

lemma segment_shorter: "segment s = Some (n, t) \<Longrightarrow> length t < length s"
  by (auto simp: segment_def Let_def split: if_splits option.splits prod.splits
      dest!: leadingInt_shorter fraction_of_shorter dropWhile_shorter)

function segments :: "nat \<Rightarrow> string \<Rightarrow> nat option" where
  "segments d s =
     (if s = [] then Some d
      else case segment s of
        None \<Rightarrow> None
      | Some (v, t) \<Rightarrow> (let d' = (d + v) mod 2 ^ 64 in if 2 ^ 63 < d' then None else segments d' t))"
  by pat_completeness auto

termination
  by (relation "measure (\<lambda>(d, s). length s)") (auto dest: segment_shorter)

declare segments.simps [simp del]

definition ParseDuration :: "string \<Rightarrow> int option" where
  "ParseDuration orig =
     (case sign_split orig of (neg, s) \<Rightarrow>
        if s = ''0'' then Some 0
        else if s = [] then None
        else case segments 0 s of
          None \<Rightarrow> None
        | Some d \<Rightarrow>
            if neg then Some (- int d)
            else if 2 ^ 63 - 1 < d then None else Some (int d))"


section \<open>Durations written as whole segments\<close>

text \<open>A duration text as its comment describes it, whole numbers with units one after the other, and its value.\<close>

definition segment_text :: "nat \<times> string \<Rightarrow> string" where
  "segment_text p = dec_of_nat (fst p) @ snd p"

definition segment_nanos :: "nat \<times> string \<Rightarrow> nat" where
  "segment_nanos p = fst p * (case map_of unitMap (snd p) of None \<Rightarrow> 0 | Some unit \<Rightarrow> unit)"

lemma nat_of_dec_Cons: "foldl (\<lambda>n c. 10 * n + digit_val c) x (c # s) = foldl (\<lambda>n c. 10 * n + digit_val c) (10 * x + digit_val c) s"
  by simp

lemma dec_fold_ge: "x \<le> foldl (\<lambda>n c. 10 * n + digit_val c) x s"
proof (induction s arbitrary: x)
  case (Cons c s)
  have "x \<le> 10 * x + digit_val c"
    by simp
  also have "\<dots> \<le> foldl (\<lambda>n c. 10 * n + digit_val c) (10 * x + digit_val c) s"
    by (rule Cons)
  finally show ?case
    by simp
qed simp

lemma leadingInt_digits:
  assumes "list_all is_digit ds" "foldl (\<lambda>n c. 10 * n + digit_val c) x ds \<le> 2 ^ 63" "s = [] \<or> \<not> is_digit (hd s)"
  shows "leadingInt x (ds @ s) = Some (foldl (\<lambda>n c. 10 * n + digit_val c) x ds, s)"
  using assms
proof (induction ds arbitrary: x)
  case Nil
  then show ?case
    by (cases s) auto
next
  case (Cons c ds)
  have le: "10 * x + digit_val c \<le> 2 ^ 63"
    using dec_fold_ge [of "10 * x + digit_val c" ds] Cons.prems(2) by simp
  then have "x \<le> 2 ^ 63 div 10"
    by simp
  then show ?case
    using Cons le by simp
qed

lemma leadingInt_dec:
  "n \<le> 2 ^ 63 \<Longrightarrow> s = [] \<or> \<not> is_digit (hd s) \<Longrightarrow> leadingInt 0 (dec_of_nat n @ s) = Some (n, s)"
  using leadingInt_digits [OF dec_of_nat_digits, of 0 n s] nat_of_dec_of_nat [of n] by (simp add: nat_of_dec_def)

text \<open>No unit starts with a digit or a point, and none contains one.\<close>

lemma unit_names: "list_all (\<lambda>(u, n). u \<noteq> [] \<and> list_all unit_char u \<and> 0 < n) unitMap"
  by (simp add: unitMap_def unit_char_def is_digit_def)

lemma unit_name: "map_of unitMap u = Some n \<Longrightarrow> u \<noteq> [] \<and> list_all unit_char u \<and> 0 < n"
  using unit_names map_of_SomeD [of unitMap u n] by (fastforce simp: list_all_iff)

lemma fits_unit: "n * m \<le> k \<Longrightarrow> 0 < m \<Longrightarrow> n \<le> k div m \<and> n \<le> k" for n m k :: nat
proof -
  assume a: "n * m \<le> k" "0 < m"
  have "n \<le> n * m"
    using a(2) by simp
  then have "n \<le> k"
    using a(1) by (rule le_trans)
  then show ?thesis
    using a by (simp add: less_eq_div_iff_mult_less_eq)
qed

lemma segment_whole:
  assumes "map_of unitMap u = Some unit" "n * unit \<le> 2 ^ 63" "s = [] \<or> is_digit (hd s)"
  shows "segment (dec_of_nat n @ u @ s) = Some (n * unit, s)"
proof -
  have u: "u \<noteq> []" "list_all unit_char u" "0 < unit"
    using unit_name [OF assms(1)] by auto
  have n: "n \<le> 2 ^ 63 div unit" "n \<le> 2 ^ 63"
    using fits_unit [OF assms(2) u(3)] by auto
  obtain c cs where dec: "dec_of_nat n = c # cs" "is_digit c"
    using dec_of_nat_digits [of n] by (cases "dec_of_nat n") auto
  have hd_u: "unit_char (hd u)" "hd (u @ s) = hd u"
    using u by (cases u; auto)+
  have "leadingInt 0 (dec_of_nat n @ u @ s) = Some (n, u @ s)"
    using leadingInt_dec [OF n(2), of "u @ s"] hd_u by (simp add: unit_char_def)
  moreover have "fraction_of (u @ s) = (0, f_of_nat 1, False, u @ s)"
    using hd_u(1) u(1) by (cases u) (auto simp: fraction_of_def unit_char_def)
  moreover have "takeWhile unit_char (u @ s) = u \<and> dropWhile unit_char (u @ s) = s"
    using u(2) assms(3) by (cases s) (auto simp: list_all_iff unit_char_def takeWhile_append2 dropWhile_append2)
  ultimately show ?thesis
    using assms(1) u(1) n(1) dec by (simp add: segment_def segment_value_def not_less)
qed

lemma segments_whole:
  assumes "list_all (\<lambda>(n, u). map_of unitMap u \<noteq> None) ps" "d + sum_list (map segment_nanos ps) \<le> 2 ^ 63"
  shows "segments d (concat (map segment_text ps)) = Some (d + sum_list (map segment_nanos ps))"
  using assms
proof (induction ps arbitrary: d)
  case Nil
  then show ?case
    by (simp add: segments.simps)
next
  case (Cons p ps)
  obtain n u unit where p: "p = (n, u)" "map_of unitMap u = Some unit"
    using Cons.prems(1) by (cases p) auto
  let ?s = "concat (map segment_text ps)"
  have "?s = [] \<or> is_digit (hd ?s)"
  proof (cases ps)
    case (Cons q qs)
    have "dec_of_nat (fst q) \<noteq> []" "list_all is_digit (dec_of_nat (fst q))"
      by (simp_all add: dec_of_nat_digits)
    then show ?thesis
      by (cases "dec_of_nat (fst q)") (auto simp: Cons segment_text_def)
  qed simp
  moreover have v: "segment_nanos p = n * unit"
    by (simp add: p segment_nanos_def)
  ultimately have seg: "segment (dec_of_nat n @ u @ ?s) = Some (n * unit, ?s)"
    using p(2) Cons.prems(2) by (intro segment_whole) auto
  have le: "d + n * unit \<le> 2 ^ 63"
    using Cons.prems(2) by (simp add: v)
  then have "(d + n * unit) mod 2 ^ 64 = d + n * unit"
    by (intro mod_less) simp
  then have "segments d (dec_of_nat n @ u @ ?s) = segments (d + n * unit) ?s"
    using seg le by (simp add: segments.simps [of d "dec_of_nat n @ u @ ?s"])
  also have "\<dots> = Some (d + n * unit + sum_list (map segment_nanos ps))"
    using Cons.prems by (intro Cons.IH) (auto simp: v)
  finally show ?case
    by (simp add: p segment_text_def [of "(n, u)"] v [unfolded p] add.assoc)
qed

text \<open>What \<open>ParseDuration\<close> returns fits the width of a duration.\<close>

lemma segments_le: "segments d s = Some n \<Longrightarrow> d \<le> 2 ^ 63 \<Longrightarrow> n \<le> 2 ^ 63"
proof (induction d s rule: segments.induct)
  case (1 d s)
  show ?case
  proof (cases "s = []")
    case True
    then show ?thesis
      using 1(2,3) by (simp add: segments.simps)
  next
    case False
    then obtain v t where vt: "segment s = Some (v, t)"
      using 1(2) by (auto simp: segments.simps [of d s] split: option.splits)
    let ?d = "(d + v) mod 2 ^ 64"
    have d: "\<not> 2 ^ 63 < ?d" "segments ?d t = Some n"
      using 1(2) False vt by (auto simp: segments.simps [of d s] Let_def split: if_splits)
    show ?thesis
      using 1(1) [OF False vt refl refl d(1) d(2)] d(1) by simp
  qed
qed

lemma ParseDuration_range: "ParseDuration s = Some d \<Longrightarrow> - (2 ^ 63) \<le> d \<and> d < 2 ^ 63"
  using segments_le [of 0] by (auto simp: ParseDuration_def split: prod.splits if_splits option.splits)

lemma segment_text_hd: "ps \<noteq> [] \<Longrightarrow> \<exists>c s. concat (map segment_text ps) = c # s \<and> is_digit c"
proof (cases ps)
  case (Cons q qs)
  have "dec_of_nat (fst q) \<noteq> []" "list_all is_digit (dec_of_nat (fst q))"
    by (simp_all add: dec_of_nat_digits)
  then show ?thesis
    by (cases "dec_of_nat (fst q)") (auto simp: Cons segment_text_def)
qed simp

lemma unit_not_zero:
  assumes "list_all (\<lambda>(n, u). map_of unitMap u \<noteq> None) ps" "ps \<noteq> []"
  shows "concat (map segment_text ps) \<noteq> ''0''"
proof -
  obtain p qs unit where ps: "ps = p # qs" "map_of unitMap (snd p) = Some unit"
    using assms by (cases ps) auto
  have "2 \<le> length (segment_text p)"
    using unit_name [OF ps(2)] dec_of_nat_nonempty [of "fst p"]
    by (cases "snd p"; cases "dec_of_nat (fst p)") (auto simp: segment_text_def)
  then show ?thesis
    by (auto simp: ps(1) dest: arg_cong [of _ _ length])
qed

lemma ParseDuration_whole:
  assumes "list_all (\<lambda>(n, u). map_of unitMap u \<noteq> None) ps" "ps \<noteq> []" "sum_list (map segment_nanos ps) < 2 ^ 63"
  shows "ParseDuration (concat (map segment_text ps)) = Some (int (sum_list (map segment_nanos ps))) \<and>
    ParseDuration (CHR ''-'' # concat (map segment_text ps)) = Some (- int (sum_list (map segment_nanos ps)))"
proof -
  let ?s = "concat (map segment_text ps)"
  obtain c s where hd: "?s = c # s" "is_digit c"
    using segment_text_hd [OF assms(2)] by blast
  then have "sign_split ?s = (False, ?s)"
    using digit_not_sign [of c] by (simp add: sign_split_def)
  moreover have "segments 0 ?s = Some (sum_list (map segment_nanos ps))"
    using segments_whole [OF assms(1), of 0] assms(3) by simp
  moreover have "?s \<noteq> ''0''" "?s \<noteq> []"
    using unit_not_zero [OF assms(1,2)] hd(1) by auto
  ultimately show ?thesis
    using assms(3) by (simp add: ParseDuration_def del: concat_eq_Nil_conv)
qed

end
