(* ===== verification/Config.thy ===== *)
theory Config
  imports Settings Go_Time
begin

text \<open>
  goxo's own configuration file, \<open>internal/config/config.go\<close>. The YAML decoder is not code of the repository: for
  the bytes of a file it gives no document (\<open>io.EOF\<close>), an error (an unknown key is one: \<open>KnownFields\<close>), or the
  fields of the document, a field that is absent having its zero value. The value of \<open>handler\<close> is handed as a
  node to \<open>UnmarshalYAML\<close>; a node is what the code asks of it. Durations are in nanoseconds.
\<close>

section \<open>Data\<close>

record engine_config =
  cf_handler :: "string list"
  cf_fdset :: string
  cf_handler_timeout :: int
  cf_worker_pool_size :: int
  cf_worker_queue_size :: int
  cf_worker_shutdown_grace :: int

record yaml_node =
  yn_scalar :: bool
  yn_string :: "string option"
  yn_strings :: "string list option"

record config_wire =
  cw_handler :: "yaml_node option"
  cw_fdset :: string
  cw_timeout :: string
  cw_pool :: int
  cw_cap :: int
  cw_shutdown_grace :: string

datatype yaml_document = NoDocument | BadDocument | Document config_wire

datatype config_error =
    ReadConfig string file_error
  | BadYaml
  | BadTimeout
  | BadShutdownGrace
  | ParseConfig string config_error

definition config_path :: string where
  "config_path = ''/goxo.yaml''"

section \<open>Operations\<close>

definition Default :: engine_config where
  "Default = \<lparr>cf_handler = [], cf_fdset = [], cf_handler_timeout = 0, cf_worker_pool_size = 1,
     cf_worker_queue_size = 1, cf_worker_shutdown_grace = 10 * 10 ^ 9\<rparr>"

definition UnmarshalYAML :: "yaml_node \<Rightarrow> string list option" where
  "UnmarshalYAML n = (if yn_scalar n then map_option Go_Strings.fields (yn_string n) else yn_strings n)"

definition durationOr :: "string \<Rightarrow> int \<Rightarrow> int option" where
  "durationOr raw fallback = (if raw = [] then Some fallback else ParseDuration raw)"

definition empty_wire :: config_wire where
  "empty_wire = \<lparr>cw_handler = None, cw_fdset = [], cw_timeout = [], cw_pool = 0, cw_cap = 0, cw_shutdown_grace = []\<rparr>"

text \<open>The decoded struct and its handler command; a node that cannot be decoded fails the document.\<close>

definition decode_wire :: "yaml_document \<Rightarrow> (config_wire \<times> string list) option" where
  "decode_wire doc =
     (case doc of
        NoDocument \<Rightarrow> Some (empty_wire, [])
      | BadDocument \<Rightarrow> None
      | Document w \<Rightarrow>
          (case cw_handler w of
             None \<Rightarrow> Some (w, [])
           | Some n \<Rightarrow> map_option (Pair w) (UnmarshalYAML n)))"

definition overlay :: "config_wire \<Rightarrow> string list \<Rightarrow> engine_config \<Rightarrow> engine_config" where
  "overlay w handler c =
     (let c = (if handler \<noteq> [] then c\<lparr>cf_handler := handler\<rparr> else c);
          c = (if cw_fdset w \<noteq> [] then c\<lparr>cf_fdset := cw_fdset w\<rparr> else c);
          c = (if cw_pool w \<noteq> 0 then c\<lparr>cf_worker_pool_size := cw_pool w\<rparr> else c)
      in if cw_cap w \<noteq> 0 then c\<lparr>cf_worker_queue_size := cw_cap w\<rparr> else c)"

definition parseConfig :: "(bytes \<Rightarrow> yaml_document) \<Rightarrow> bytes \<Rightarrow> config_error + engine_config" where
  "parseConfig yaml data' =
     bindE (ofOption BadYaml (decode_wire (yaml data'))) (\<lambda>(w, handler).
       let c = overlay w handler Default
       in bindE (ofOption BadTimeout (durationOr (cw_timeout w) (cf_handler_timeout c))) (\<lambda>t.
          bindE (ofOption BadShutdownGrace (durationOr (cw_shutdown_grace w) (cf_worker_shutdown_grace c))) (\<lambda>g.
            Inr (c\<lparr>cf_handler_timeout := t, cf_worker_shutdown_grace := g\<rparr>))))"

definition loadConfigFile :: "(bytes \<Rightarrow> yaml_document) \<Rightarrow> file_system \<Rightarrow> string \<Rightarrow> config_error + engine_config" where
  "loadConfigFile yaml files path =
     (case files path of
        Inl e \<Rightarrow> Inl (ReadConfig path e)
      | Inr data' \<Rightarrow> mapE (ParseConfig path) (parseConfig yaml data'))"

text \<open>\<open>errors.Is(err, os.ErrNotExist)\<close>: only the error of reading the file can be it.\<close>

fun is_not_exist :: "config_error \<Rightarrow> bool" where
  "is_not_exist (ReadConfig _ NotExist) = True"
| "is_not_exist _ = False"

section \<open>Facts\<close>

lemma empty_document: "yaml data' = NoDocument \<Longrightarrow> parseConfig yaml data' = Inr Default"
  by (simp add: parseConfig_def decode_wire_def overlay_def empty_wire_def durationOr_def Default_def)

lemma load_not_exist: "loadConfigFile yaml files path = Inl e \<Longrightarrow> is_not_exist e \<longleftrightarrow> files path = Inl NotExist"
  by (cases "files path") (auto simp: loadConfigFile_def err_iffs elim!: is_not_exist.elims(2) split: file_error.splits)

end
