(* ===== verification/Goxo_Main.thy ===== *)
theory Goxo_Main
  imports Engine Config
begin

text \<open>
  The command, \<open>main.go\<close>: the inputs are loaded, the parameters are taken from the environment, the
  configuration file and the defaults, and the engine runs. \<open>env\<close> is \<open>os.Getenv\<close>, which gives the empty string
  for a variable that is unset.
\<close>

section \<open>The environment\<close>

type_synonym environment = "string \<Rightarrow> string"

definition envOr :: "environment \<Rightarrow> string \<Rightarrow> string \<Rightarrow> string" where
  "envOr env key fallback = (if env key \<noteq> [] then env key else fallback)"

definition handlerOr :: "environment \<Rightarrow> string \<Rightarrow> string list \<Rightarrow> string list" where
  "handlerOr env key fallback = (if env key \<noteq> [] then Go_Strings.fields (env key) else fallback)"

definition envDurationOr :: "environment \<Rightarrow> string \<Rightarrow> int \<Rightarrow> int" where
  "envDurationOr env key fallback =
     (if env key = [] then fallback
      else case ParseDuration (env key) of None \<Rightarrow> fallback | Some d \<Rightarrow> d)"

definition intOr :: "environment \<Rightarrow> string \<Rightarrow> int \<Rightarrow> int" where
  "intOr env key fallback =
     (if env key = [] then fallback
      else case atoi (env key) of None \<Rightarrow> fallback | Some n \<Rightarrow> n)"

section \<open>Loading and running\<close>

definition loadConfig :: "environment \<Rightarrow> (bytes \<Rightarrow> yaml_document) \<Rightarrow> file_system \<Rightarrow> config_error + engine_config" where
  "loadConfig env yaml files =
     (if env ''GOXO_CONFIG'' \<noteq> [] then loadConfigFile yaml files (env ''GOXO_CONFIG'')
      else case loadConfigFile yaml files config_path of
        Inl e \<Rightarrow> if is_not_exist e then Inr Default else Inl e
      | Inr c \<Rightarrow> Inr c)"

definition params_of :: "environment \<Rightarrow> engine_config \<Rightarrow> params" where
  "params_of env c =
     \<lparr>pr_handler = handlerOr env ''GOXO_HANDLER'' (cf_handler c),
      pr_fdset_path = envOr env ''GOXO_FDSET'' (cf_fdset c),
      pr_universe = env ''UNIVERSE'',
      pr_timeout = envDurationOr env ''GOXO_HANDLER_TIMEOUT'' (cf_handler_timeout c),
      pr_pool_size = intOr env ''GOXO_POOL_SIZE'' (cf_worker_pool_size c),
      pr_worker_cap = intOr env ''GOXO_WORKER_CAP'' (cf_worker_queue_size c),
      pr_shutdown_grace = envDurationOr env ''GOXO_SHUTDOWN_GRACE'' (cf_worker_shutdown_grace c)\<rparr>"

datatype main_error =
    SettingsFailed settings_error
  | ManifestFailed manifest_error
  | ConfigFailed config_error
  | EngineFailed engine_error

text \<open>The libraries \<open>run\<close> uses, with the embedded descriptor set of the settings.\<close>

record ('s, 'f, 'sd, 'sm) libraries =
  lb_settings :: "('s, 'f, 'sd, 'sm) settings_lib"
  lb_settings_fdset :: bytes
  lb_manifest_yaml :: "bytes \<Rightarrow> manifest_wire option"
  lb_config_yaml :: "bytes \<Rightarrow> yaml_document"

definition loadInputs :: "('s, 'f, 'sd, 'sm) libraries \<Rightarrow> environment \<Rightarrow> file_system \<Rightarrow>
    main_error + settings \<times> manifest \<times> params" where
  "loadInputs lib env files =
     bindE (mapE SettingsFailed (fst (loadSettings (lb_settings lib) (lb_settings_fdset lib) files None
       (envOr env ''OXO_SETTINGS_PATH'' settings_path)))) (\<lambda>s.
     bindE (mapE ManifestFailed (loadManifest (lb_manifest_yaml lib) files
       (envOr env ''OXO_DEFINITION_PATH'' manifest_path))) (\<lambda>m.
     bindE (mapE ConfigFailed (loadConfig env (lb_config_yaml lib) files)) (\<lambda>c.
       Inr (s, m, params_of env c))))"

text \<open>\<open>run\<close>: what it does and how it ends; \<open>None\<close> while it runs.\<close>

definition run :: "('s, 'f, 'sd, 'sm) libraries \<Rightarrow> environment \<Rightarrow> ('cs, 'cf, 'd, 'm) world \<Rightarrow>
    effect list \<times> (main_error option) option" where
  "run lib env w =
     (case loadInputs lib env (wd_files w) of
        Inl e \<Rightarrow> ([], Some (Some e))
      | Inr (s, m, p) \<Rightarrow>
          (case Run w m s p of (effs, st) \<Rightarrow>
             (effs, case st of Running \<Rightarrow> None | Returned e \<Rightarrow> Some (map_option EngineFailed e))))"

text \<open>\<open>main\<close>: the exit status.\<close>

definition exit_status :: "(main_error option) option \<Rightarrow> nat option" where
  "exit_status st = map_option (\<lambda>e. if e = None then 0 else 1) st"

section \<open>Where a parameter comes from\<close>

text \<open>The reference: a value is the environment's when that is given and well formed, else the file's when the file
  gives one, else the default.\<close>

definition layered :: "'a option \<Rightarrow> 'a option \<Rightarrow> 'a \<Rightarrow> 'a" where
  "layered env_value file_value def =
     (case env_value of Some v \<Rightarrow> v | None \<Rightarrow> (case file_value of Some v \<Rightarrow> v | None \<Rightarrow> def))"

definition given :: "(string \<Rightarrow> 'a option) \<Rightarrow> string \<Rightarrow> 'a option" where
  "given parse raw = (if raw = [] then None else parse raw)"

definition nonzero :: "int \<Rightarrow> int option" where
  "nonzero i = (if i = 0 then None else Some i)"

definition nonempty :: "'a list \<Rightarrow> 'a list option" where
  "nonempty xs = (if xs = [] then None else Some xs)"

text \<open>The document of the file consulted; a missing file at the default path counts as an empty one.\<close>

definition config_document :: "environment \<Rightarrow> (bytes \<Rightarrow> yaml_document) \<Rightarrow> file_system \<Rightarrow> yaml_document" where
  "config_document env yaml files =
     (case files (envOr env ''GOXO_CONFIG'' config_path) of Inl _ \<Rightarrow> NoDocument | Inr data' \<Rightarrow> yaml data')"

definition layered_params :: "environment \<Rightarrow> config_wire \<Rightarrow> string list \<Rightarrow> params" where
  "layered_params env w handler =
     \<lparr>pr_handler = layered (given (\<lambda>v. Some (Go_Strings.fields v)) (env ''GOXO_HANDLER'')) (nonempty handler) [],
      pr_fdset_path = layered (nonempty (env ''GOXO_FDSET'')) (nonempty (cw_fdset w)) [],
      pr_universe = env ''UNIVERSE'',
      pr_timeout = layered (given ParseDuration (env ''GOXO_HANDLER_TIMEOUT'')) (given ParseDuration (cw_timeout w)) 0,
      pr_pool_size = layered (given atoi (env ''GOXO_POOL_SIZE'')) (nonzero (cw_pool w)) 1,
      pr_worker_cap = layered (given atoi (env ''GOXO_WORKER_CAP'')) (nonzero (cw_cap w)) 1,
      pr_shutdown_grace = layered (given ParseDuration (env ''GOXO_SHUTDOWN_GRACE''))
        (given ParseDuration (cw_shutdown_grace w)) 10000000000\<rparr>"

lemma layered_env:
  "handlerOr env k h = layered (given (\<lambda>v. Some (Go_Strings.fields v)) (env k)) (nonempty h) []"
  "envOr env k f = layered (nonempty (env k)) (nonempty f) []"
  "envDurationOr env k (layered None fd d) = layered (given ParseDuration (env k)) fd d"
  "intOr env k (layered None fn n) = layered (given atoi (env k)) fn n"
  by (auto simp: handlerOr_def envOr_def envDurationOr_def intOr_def layered_def given_def nonempty_def split: option.split)

lemma layered_file:
  "durationOr raw d = Some t \<Longrightarrow> t = layered None (given ParseDuration raw) d"
  "(if n \<noteq> 0 then n else 1) = layered None (nonzero n) 1"
  by (auto simp: durationOr_def layered_def given_def nonzero_def split: if_splits)

lemma overlay_Default:
  "overlay w handler Default = \<lparr>cf_handler = handler, cf_fdset = cw_fdset w, cf_handler_timeout = 0,
     cf_worker_pool_size = (if cw_pool w \<noteq> 0 then cw_pool w else 1),
     cf_worker_queue_size = (if cw_cap w \<noteq> 0 then cw_cap w else 1), cf_worker_shutdown_grace = 10000000000\<rparr>"
  by (simp add: overlay_def Default_def Let_def)

lemma parseConfig_params:
  assumes "parseConfig yaml data' = Inr c" "decode_wire (yaml data') = Some (w, handler)"
  shows "params_of env c = layered_params env w handler"
proof -
  obtain t g where c: "c = (overlay w handler Default)\<lparr>cf_handler_timeout := t, cf_worker_shutdown_grace := g\<rparr>"
      "durationOr (cw_timeout w) 0 = Some t" "durationOr (cw_shutdown_grace w) 10000000000 = Some g"
    using assms by (auto simp: parseConfig_def err_iffs overlay_Default Let_def)
  show ?thesis
    unfolding params_of_def layered_params_def c(1) overlay_Default layered_file(1) [OF c(2)] layered_file(1) [OF c(3)]
      layered_file(2)
    by (simp add: layered_env)
qed

lemma params_layered:
  assumes "loadConfig env yaml files = Inr c"
  shows "\<exists>w handler. decode_wire (config_document env yaml files) = Some (w, handler) \<and>
    params_of env c = layered_params env w handler"
proof (cases "files (envOr env ''GOXO_CONFIG'' config_path)")
  case (Inr data')
  then have "parseConfig yaml data' = Inr c"
    using assms by (auto simp: loadConfig_def loadConfigFile_def envOr_def mapE_Inl_iff split: if_splits sum.splits)
  moreover obtain w handler where "decode_wire (yaml data') = Some (w, handler)"
    using calculation by (auto simp: parseConfig_def err_iffs)
  ultimately show ?thesis
    using parseConfig_params Inr by (simp add: config_document_def)
next
  case (Inl e)
  then have "c = Default"
    using assms by (auto simp: loadConfig_def loadConfigFile_def envOr_def split: if_splits)
  moreover have "parseConfig (\<lambda>_. NoDocument) [] = Inr Default"
    by (simp add: empty_document)
  ultimately show ?thesis
    using parseConfig_params [of "\<lambda>_. NoDocument" "[]" c empty_wire "[]" env] Inl
    by (simp add: config_document_def decode_wire_def)
qed

text \<open>C38: every parameter of a run is the environment's value when that is set and well formed, else the value of the
  configuration file when it gives one, else the default: no handler, no descriptor set, no timeout, one process,
  one message at a time, ten seconds to drain.\<close>

theorem params_have_precedence:
  assumes "loadConfig env yaml files = Inr c"
  shows "\<exists>w handler. decode_wire (config_document env yaml files) = Some (w, handler) \<and>
    params_of env c = layered_params env w handler"
  using assms by (rule params_layered)

definition ex_env :: environment where
  "ex_env k = (if k = ''GOXO_POOL_SIZE'' then ''4'' else if k = ''GOXO_HANDLER_TIMEOUT'' then ''soon'' else [])"

definition ex_wire :: config_wire where
  "ex_wire = \<lparr>cw_handler = Some \<lparr>yn_scalar = True, yn_string = Some ''python app.py'', yn_strings = None\<rparr>,
     cw_fdset = ''/oxo.fdset'', cw_timeout = ''30s'', cw_pool = 2, cw_cap = 0, cw_shutdown_grace = []\<rparr>"

definition ex_yaml :: yaml_document where
  "ex_yaml = Document ex_wire"

lemma ex_fields: "Go_Strings.fields ''python app.py'' = [''python'', ''app.py'']"
  by code_simp

lemma ex_thirty: "ParseDuration ''30s'' = Some 30000000000"
proof -
  have "segment_text (30, ''s'') = ''30s''"
    by code_simp
  then show ?thesis
    using ParseDuration_whole [of "[(30, ''s'')]"] by (simp add: unitMap_def segment_nanos_def)
qed

lemma ex_loads: "\<exists>c. loadConfig ex_env (\<lambda>_. ex_yaml) (\<lambda>_. Inr []) = Inr c"
  by (simp add: loadConfig_def ex_env_def loadConfigFile_def parseConfig_def ex_yaml_def ex_wire_def decode_wire_def UnmarshalYAML_def
      durationOr_def ex_thirty)

theorem params_have_precedence_witness:
  "\<exists>c. loadConfig ex_env (\<lambda>_. ex_yaml) (\<lambda>_. Inr []) = Inr c \<and> pr_pool_size (params_of ex_env c) = 4 \<and>
    pr_handler (params_of ex_env c) = [''python'', ''app.py''] \<and> pr_worker_cap (params_of ex_env c) = 1 \<and>
    pr_timeout (params_of ex_env c) = layered (given ParseDuration ''soon'') (Some 30000000000) 0"
proof -
  obtain c where c: "loadConfig ex_env (\<lambda>_. ex_yaml) (\<lambda>_. Inr []) = Inr c"
    using ex_loads by blast
  have doc: "decode_wire (config_document ex_env (\<lambda>_. ex_yaml) (\<lambda>_. Inr [])) = Some (ex_wire, [''python'', ''app.py''])"
    by (simp add: config_document_def ex_yaml_def ex_wire_def decode_wire_def UnmarshalYAML_def ex_fields)
  have "atoi ''4'' = Some 4"
    by code_simp
  then have "pr_pool_size (layered_params ex_env ex_wire h) = 4 \<and> pr_handler (layered_params ex_env ex_wire h) = layered None (nonempty h) [] \<and>
      pr_worker_cap (layered_params ex_env ex_wire h) = 1 \<and>
      pr_timeout (layered_params ex_env ex_wire h) = layered (given ParseDuration ''soon'') (Some 30000000000) 0" for h
    by (simp add: layered_params_def ex_env_def ex_wire_def layered_def given_def nonzero_def ex_thirty)
  then show ?thesis
    using c params_have_precedence [OF c] by (auto simp: doc layered_def nonempty_def)
qed

end
