(* ===== verification/Settings_Properties.thy ===== *)
theory Settings_Properties
  imports Settings
begin

text \<open>
  Reading the settings (\<open>internal/settings/settings.go\<close>): under the schema of the embedded descriptor set no field read
  panics, and \<open>Load\<close> gives every field as the message has it. The schema is the hypothesis \<open>embedded_schema\<close>: the
  file \<open>agent_instance_settings.proto\<close> with the documented behaviour of \<open>protoreflect\<close>, that a field of the type is
  found by its name and its value has its declared kind.
\<close>

section \<open>The schema\<close>

definition has_string :: "('s, 'f, 'd, 'm) settings_lib \<Rightarrow> 'm \<Rightarrow> string \<Rightarrow> bool" where
  "has_string lib m name \<longleftrightarrow> sl_has_field lib m name \<and> (\<exists>s. sl_get lib m name = PString s)"

definition has_uint :: "('s, 'f, 'd, 'm) settings_lib \<Rightarrow> 'm \<Rightarrow> string \<Rightarrow> bool" where
  "has_uint lib m name \<longleftrightarrow> sl_has_field lib m name \<and> (\<exists>u. sl_get lib m name = PUint (ucast (u :: uint32)))"

definition has_strings :: "('s, 'f, 'd, 'm) settings_lib \<Rightarrow> 'm \<Rightarrow> string \<Rightarrow> bool" where
  "has_strings lib m name \<longleftrightarrow> sl_has_field lib m name \<and> (\<exists>xs. sl_get lib m name = PList (map PString xs))"

definition arg_message :: "('s, 'f, 'd, 'm) settings_lib \<Rightarrow> 'm \<Rightarrow> bool" where
  "arg_message lib m \<longleftrightarrow> has_string lib m ''name'' \<and> has_string lib m ''type'' \<and>
     sl_has_field lib m ''value'' \<and> (\<exists>bs. sl_get lib m ''value'' = PBytes bs)"

definition settings_message :: "('s, 'f, 'd, 'm) settings_lib \<Rightarrow> 'm \<Rightarrow> bool" where
  "settings_message lib m \<longleftrightarrow>
     list_all (has_string lib m)
       [''key'', ''bus_url'', ''bus_exchange_topic'', ''redis_url'', ''healthcheck_host'', ''service_name''] \<and>
     list_all (has_uint lib m) [''healthcheck_port'', ''cyclic_processing_limit'', ''depth_processing_limit''] \<and>
     list_all (has_strings lib m) [''accepted_agents'', ''in_selectors''] \<and>
     sl_has_field lib m ''args'' \<and> (\<exists>ms. sl_get lib m ''args'' = PList (map PMessage ms) \<and> list_all (arg_message lib) ms)"

definition embedded_schema :: "('s, 'f, 'd, 'm) settings_lib \<Rightarrow> bytes \<Rightarrow> bool" where
  "embedded_schema lib fdset \<longleftrightarrow>
     (\<forall>md data' m. resolveDescriptor lib fdset = Inr md \<longrightarrow> sl_message lib md data' = Some m \<longrightarrow> settings_message lib m)"

section \<open>Reading under the schema\<close>

text \<open>What the settings should be: the values of the message's fields, as their kinds have them.\<close>

fun the_string :: "'m pvalue \<Rightarrow> string" where
  "the_string (PString s) = s"
| "the_string _ = []"

fun the_uint :: "'m pvalue \<Rightarrow> nat" where
  "the_uint (PUint u) = unat u"
| "the_uint _ = 0"

fun the_list :: "'m pvalue \<Rightarrow> 'm pvalue list" where
  "the_list (PList vs) = vs"
| "the_list _ = []"

fun arg_of :: "('s, 'f, 'd, 'm) settings_lib \<Rightarrow> 'm pvalue \<Rightarrow> string \<times> string \<times> 'm pvalue" where
  "arg_of lib (PMessage m) = (the_string (sl_get lib m ''name''), the_string (sl_get lib m ''type''), sl_get lib m ''value'')"
| "arg_of lib v = ([], [], v)"

definition reads_as :: "('s, 'f, 'd, 'm) settings_lib \<Rightarrow> 'm \<Rightarrow> settings \<Rightarrow> bool" where
  "reads_as lib m s \<longleftrightarrow>
     map (\<lambda>name. the_string (sl_get lib m name))
       [''key'', ''bus_url'', ''bus_exchange_topic'', ''redis_url'', ''healthcheck_host'', ''service_name''] =
       [st_key s, st_bus_url s, st_bus_exchange_topic s, st_redis_url s, st_healthcheck_host s, st_service_name s] \<and>
     map (\<lambda>name. the_uint (sl_get lib m name)) [''healthcheck_port'', ''cyclic_processing_limit'', ''depth_processing_limit''] =
       map unat [st_healthcheck_port s, st_cyclic_processing_limit s, st_depth_processing_limit s] \<and>
     map (\<lambda>name. map the_string (the_list (sl_get lib m name))) [''accepted_agents'', ''in_selectors''] =
       [st_accepted_agents s, st_in_selectors s] \<and>
     map (arg_of lib) (the_list (sl_get lib m ''args'')) =
       map (\<lambda>a. (sa_name a, sa_type a, PBytes (sa_value a))) (st_args s)"

lemma getString_schema: "has_string lib m name \<Longrightarrow> getString lib m name = Inr (the_string (sl_get lib m name))"
  by (auto simp: has_string_def getString_def getField_def field_def ofOption_def)

lemma unat_widened: "unat (ucast (u :: uint32) :: 64 word) = unat u"
proof -
  have "uint (ucast u :: 64 word) = uint u"
    by (rule uint_up_ucast) (simp add: is_up)
  then show ?thesis
    by (simp only: unat_eq_nat_uint)
qed

lemma narrowed_widened: "(ucast (ucast (u :: uint32) :: 64 word) :: uint32) = u"
  by (rule ucast_up_ucast_id) (simp add: is_up)

lemma getUint32_schema: "has_uint lib m name \<Longrightarrow> \<exists>u. getUint32 lib m name = Inr u \<and> unat u = the_uint (sl_get lib m name)"
  by (auto simp: has_uint_def getUint32_def getField_def field_def ofOption_def unat_widened narrowed_widened)

lemma getStrings_schema:
  "has_strings lib m name \<Longrightarrow> getStrings lib m name = Inr (map the_string (the_list (sl_get lib m name)))"
  by (auto simp: has_strings_def getStrings_def getField_def field_def ofOption_def)

lemma args_of_schema:
  "list_all (arg_message lib) ms \<Longrightarrow>
    \<exists>xs. args_of lib (map PMessage ms) = Inr xs \<and>
      map (arg_of lib) (map PMessage ms) = map (\<lambda>a. (sa_name a, sa_type a, PBytes (sa_value a))) xs"
proof (induction ms)
  case (Cons m ms)
  then obtain xs bs where rest: "args_of lib (map PMessage ms) = Inr xs"
      "map (arg_of lib) (map PMessage ms) = map (\<lambda>a. (sa_name a, sa_type a, PBytes (sa_value a))) xs"
      "sl_get lib m ''value'' = PBytes bs"
    by (auto simp: arg_message_def)
  then show ?case
    using Cons.prems
    by (intro exI [of _ "\<lparr>sa_name = the_string (sl_get lib m ''name''), sa_type = the_string (sl_get lib m ''type''),
          sa_value = bs\<rparr> # xs"])
      (simp add: arg_message_def getString_schema getBytes_def getField_def field_def ofOption_def)
qed simp

lemma getArgs_schema:
  assumes "settings_message lib m"
  shows "\<exists>xs. getArgs lib m = Inr xs \<and>
    map (arg_of lib) (the_list (sl_get lib m ''args'')) = map (\<lambda>a. (sa_name a, sa_type a, PBytes (sa_value a))) xs"
proof -
  obtain ms where "sl_has_field lib m ''args''" "sl_get lib m ''args'' = PList (map PMessage ms)" "list_all (arg_message lib) ms"
    using assms by (auto simp: settings_message_def)
  then show ?thesis
    using args_of_schema [of lib ms] by (simp add: getArgs_def getField_def field_def ofOption_def)
qed

lemma settings_of_schema:
  assumes "settings_message lib m"
  shows "\<exists>s. settings_of lib m = Inr s \<and> reads_as lib m s"
proof -
  have strings: "getString lib m name = Inr (the_string (sl_get lib m name))"
    if "name \<in> {''key'', ''bus_url'', ''bus_exchange_topic'', ''redis_url'', ''healthcheck_host'', ''service_name''}" for name
    using assms that by (auto simp: settings_message_def intro: getString_schema)
  have lists: "getStrings lib m name = Inr (map the_string (the_list (sl_get lib m name)))"
    if "name \<in> {''accepted_agents'', ''in_selectors''}" for name
    using assms that by (auto simp: settings_message_def intro: getStrings_schema)
  obtain p c d where uints: "getUint32 lib m ''healthcheck_port'' = Inr p" "unat p = the_uint (sl_get lib m ''healthcheck_port'')"
      "getUint32 lib m ''cyclic_processing_limit'' = Inr c" "unat c = the_uint (sl_get lib m ''cyclic_processing_limit'')"
      "getUint32 lib m ''depth_processing_limit'' = Inr d" "unat d = the_uint (sl_get lib m ''depth_processing_limit'')"
    using getUint32_schema [of lib m "''healthcheck_port''"] getUint32_schema [of lib m "''cyclic_processing_limit''"]
      getUint32_schema [of lib m "''depth_processing_limit''"] assms by (auto simp: settings_message_def)
  obtain xs where args: "getArgs lib m = Inr xs"
      "map (arg_of lib) (the_list (sl_get lib m ''args'')) = map (\<lambda>a. (sa_name a, sa_type a, PBytes (sa_value a))) xs"
    using getArgs_schema [OF assms] by blast
  show ?thesis
    by (simp add: settings_of_def strings lists uints args reads_as_def del: map_map)
qed

section \<open>Load\<close>

text \<open>C31: under the schema of the embedded descriptor set \<open>Load\<close> never panics on a field. It fails only when the file
  cannot be read, the descriptor cannot be resolved or the bytes are no message, and otherwise every field of the
  settings, those of the arguments included, is the field of the message that the bytes encode.\<close>

theorem loadSettings_reads:
  assumes "embedded_schema lib fdset" "cache = None \<or> cache = Some (resolveDescriptor lib fdset)"
  shows "case fst (loadSettings lib fdset files cache path) of
      Inl e \<Rightarrow> (\<exists>fe. files path = Inl fe \<and> e = ReadSettings path fe) \<or>
        e \<in> {ParseDescriptorSet, BuildDescriptorFiles, ResolveSettings, SettingsNotAMessage, ParseSettings}
    | Inr s \<Rightarrow> \<exists>data' md m. files path = Inr data' \<and> resolveDescriptor lib fdset = Inr md \<and>
        sl_message lib md data' = Some m \<and> reads_as lib m s"
proof (cases "files path")
  case (Inl fe)
  then show ?thesis
    by (simp add: loadSettings_def)
next
  case (Inr data')
  have resolved: "fst (messageDescriptor lib fdset cache) = resolveDescriptor lib fdset"
    using assms(2) by (auto simp: messageDescriptor_def Let_def)
  then obtain cache' where cache': "messageDescriptor lib fdset cache = (resolveDescriptor lib fdset, cache')"
    by (metis prod.collapse)
  have failed: "resolveDescriptor lib fdset = Inl e \<Longrightarrow>
      e \<in> {ParseDescriptorSet, BuildDescriptorFiles, ResolveSettings, SettingsNotAMessage}" for e
    by (auto simp: resolveDescriptor_def err_iffs split: found.splits) (metis found.exhaust)
  show ?thesis
  proof (cases "resolveDescriptor lib fdset")
    case (Inl e)
    then show ?thesis
      using failed [OF Inl] Inr cache' by (auto simp: loadSettings_def parseSettings_def)
  next
    case md: (Inr md)
    show ?thesis
    proof (cases "sl_message lib md data'")
      case None
      then show ?thesis
        using md Inr cache' by (simp add: loadSettings_def parseSettings_def ofOption_def)
    next
      case (Some m)
      then obtain s where "settings_of lib m = Inr s" "reads_as lib m s"
        using assms(1) md settings_of_schema by (fastforce simp: embedded_schema_def)
      then show ?thesis
        using Some md Inr cache' by (simp add: loadSettings_def parseSettings_def ofOption_def)
    qed
  qed
qed

text \<open>An example: messages as lists of fields, and one message of settings with an argument.\<close>

datatype ex_message = ExMessage "(string \<times> ex_message pvalue) list"

fun ex_field :: "ex_message \<Rightarrow> string \<Rightarrow> ex_message pvalue option" where
  "ex_field (ExMessage fs) name = map_of fs name"

definition ex_arg_message :: ex_message where
  "ex_arg_message = ExMessage [(''name'', PString ''mode''), (''type'', PString ''string''), (''value'', PBytes (Some [34, 34]))]"

definition ex_settings_message :: ex_message where
  "ex_settings_message = ExMessage
     [(''key'', PString ''agent/test''), (''bus_url'', PString ''amqp://mq''), (''bus_exchange_topic'', PString ''x''),
      (''redis_url'', PString []), (''healthcheck_host'', PString []), (''service_name'', PString ''s''),
      (''healthcheck_port'', PUint 5000), (''cyclic_processing_limit'', PUint 0), (''depth_processing_limit'', PUint 4),
      (''accepted_agents'', PList [PString ''agent/a'']), (''in_selectors'', PList []), (''args'', PList [PMessage ex_arg_message])]"

definition ex_settings_lib :: "(unit, unit, unit, ex_message) settings_lib" where
  "ex_settings_lib = \<lparr>sl_set = (\<lambda>_. Some ()), sl_files = (\<lambda>_. Some ()), sl_find = (\<lambda>_ _. Some (FoundMessage ())),
     sl_message = (\<lambda>_ data'. if data' = [] then None else Some ex_settings_message),
     sl_has_field = (\<lambda>m name. ex_field m name \<noteq> None), sl_get = (\<lambda>m name. the (ex_field m name)), sl_format = (\<lambda>_. [])\<rparr>"

lemma ex_settings_schema: "embedded_schema ex_settings_lib fdset"
proof -
  have arg: "arg_message ex_settings_lib ex_arg_message"
    by (simp add: arg_message_def has_string_def ex_settings_lib_def ex_arg_message_def)
  have "(5000 :: 64 word) = ucast (5000 :: uint32)" "(0 :: 64 word) = ucast (0 :: uint32)" "(4 :: 64 word) = ucast (4 :: uint32)"
    by simp_all
  then have uints: "\<exists>u. (5000 :: 64 word) = ucast (u :: uint32)" "\<exists>u. (0 :: 64 word) = ucast (u :: uint32)"
      "\<exists>u. (4 :: 64 word) = ucast (u :: uint32)"
    by blast+
  have "\<exists>xs. [PString ''agent/a''] = map PString xs" "\<exists>ms. [PMessage ex_arg_message] = map PMessage ms \<and> list_all (arg_message ex_settings_lib) ms"
    using arg by (intro exI [of _ "[''agent/a'']"] exI [of _ "[ex_arg_message]"], simp)+
  then have "settings_message ex_settings_lib ex_settings_message"
    using uints by (simp add: settings_message_def has_string_def has_uint_def has_strings_def ex_settings_lib_def ex_settings_message_def)
  then show ?thesis
    by (simp add: embedded_schema_def ex_settings_lib_def)
qed

theorem loadSettings_reads_witness:
  "case fst (loadSettings ex_settings_lib [] (\<lambda>_. Inr [1]) None settings_path) of
      Inl e \<Rightarrow> False
    | Inr s \<Rightarrow> reads_as ex_settings_lib ex_settings_message s"
proof -
  have "isl (fst (loadSettings ex_settings_lib [] (\<lambda>_. Inr [1]) None settings_path)) = False"
    by code_simp
  moreover have "sl_message ex_settings_lib md [1] = Some ex_settings_message" for md
    by (simp add: ex_settings_lib_def)
  ultimately show ?thesis
    using loadSettings_reads [OF ex_settings_schema, of None "[]" "\<lambda>_. Inr [1]" settings_path] by (auto split: sum.splits)
qed

end
