(* ===== verification/Healthcheck.thy ===== *)
theory Healthcheck
  imports Engine
begin

text \<open>
  The probe of the container, \<open>cmd/healthcheck/main.go\<close>, and the probe against the engine's endpoint. Its HTTP client is
  a function from the URL to the status it is answered with, \<open>None\<close> for a connection error or a timeout.
\<close>

section \<open>The probe\<close>

definition port :: "(string \<Rightarrow> string) \<Rightarrow> string" where
  "port env = (if env ''HEALTHCHECK_PORT'' = [] then ''5000'' else env ''HEALTHCHECK_PORT'')"

definition probe :: "(string \<Rightarrow> nat option) \<Rightarrow> string \<Rightarrow> nat" where
  "probe get addr =
     (case get (''http://'' @ addr @ ''/status'') of
        None \<Rightarrow> 1
      | Some code' \<Rightarrow> if code' \<noteq> 200 then 1 else 0)"

definition healthcheck :: "(string \<Rightarrow> string) \<Rightarrow> (string \<Rightarrow> nat option) \<Rightarrow> nat" where
  "healthcheck env get = probe get (join_host_port ''127.0.0.1'' (port env))"

section \<open>The probe against the engine\<close>

text \<open>A local network with the endpoint of an engine that listens on every address at \<open>p\<close>: while it is open, it answers
  there, and nothing answers elsewhere.\<close>

definition engine_answers :: "health_server \<Rightarrow> string \<Rightarrow> string \<Rightarrow> nat option" where
  "engine_answers srv p url =
     (if hs_open srv \<and> url = ''http://127.0.0.1:'' @ p @ ''/status'' then Some (fst (status_endpoint ''GET'' ''/status'')) else None)"

lemma join_local: "join_host_port ''127.0.0.1'' p = ''127.0.0.1:'' @ p"
  by (simp add: join_host_port_def)

text \<open>The probe reports the engine healthy exactly while the endpoint is open and both use the same port. The engine takes
  it from the settings, the probe from the environment; left unset, both are 5000.\<close>

lemma healthcheck_same_port: "healthcheck env (engine_answers srv p) = 0 \<longleftrightarrow> hs_open srv \<and> port env = p"
  by (simp add: healthcheck_def probe_def engine_answers_def join_local status_endpoint_def)

lemma itoa_5000: "itoa 5000 = ''5000''"
proof -
  have "digit_char 5 = CHR ''5''" "digit_char 0 = CHR ''0''"
    by code_simp+
  then show ?thesis
    by (simp add: itoa_def dec_of_nat.simps [of 5000] dec_of_nat.simps [of 500] dec_of_nat.simps [of 50] dec_of_nat.simps [of 5])
qed

lemma default_ports:
  assumes "st_healthcheck_host s = []" "st_healthcheck_port s = 0" "env ''HEALTHCHECK_PORT'' = []"
  shows "healthAddr s = ''0.0.0.0:'' @ port env"
  using assms by (simp add: healthAddr_def join_host_port_def port_def itoa_5000)

text \<open>The endpoint answers from \<open>Serve\<close> until \<open>Close\<close>, to nothing but \<open>GET\<close> and \<open>HEAD\<close> of \<open>/status\<close> with a 200.\<close>

lemma endpoint_lifetime:
  "Serve listen addr = Inr srv \<longleftrightarrow> (\<exists>resolved. listen addr = Some resolved \<and> srv = \<lparr>hs_addr = resolved, hs_open = True\<rparr>)"
  "Serve listen addr = Inr srv \<Longrightarrow> served srv (Addr srv) ''GET'' ''/status'' = Some (200, ''OK'')"
  "served (Close srv) a meth path = None"
  by (auto simp: Serve_def Addr_def served_def status_endpoint_def Close_def split: option.splits)

end
