(* ===== verification/Spec2Isabelle.thy ===== *)
theory Spec2Isabelle
  imports Pool_Properties Worker_Stream Data_Typing Worker_Spawn Engine_Drain Engine_Emits Goxo_Main Settings_Properties Healthcheck
begin

text \<open>
  goxo: the Go engine that hosts OXO agent handlers.

  The engine consumes messages from RabbitMQ, unwraps the control envelope and decodes the inner protobuf message
  to a dict, admits it against the flow-control limits, and dispatches it to a pool of long-lived handler processes.
  A handler is spoken to over its stdin and stdout in framed JSON notes; what it emits is encoded, wrapped and
  published, and what it finishes is acked. The theories follow these parts of \<open>src/\<close>.

  \<^bold>\<open>Ground.\<close> \<open>Goxo_Prelude\<close> has the byte and word types and the error monad: a Go function with an error is a
  function into a sum, \<open>Inl\<close> the error. \<open>Go_Map\<close> is Go's map in a canonical sorted form, with the interfaces \<open>store\<close>
  and \<open>gate\<close> that the rest uses, interpreted on it. \<open>Go_Strings\<close>, \<open>Go_Base64\<close>, \<open>Go_Utf8\<close>, \<open>Go_Float\<close>, \<open>Go_Time\<close> and
  \<open>Go_Json\<close> model what the code calls of Go's standard library: \<open>strconv\<close>, \<open>strings.Fields\<close>, \<open>base64\<close>, UTF-8
  repair, the reading and writing of floats, \<open>time.ParseDuration\<close>, and \<open>encoding/json\<close> as a lexer, a stack-machine
  parser with Go's depth limit of 10000, and a printer. \<open>Go_Json_Roundtrip\<close> proves that a printed tree parses to
  itself with invalid UTF-8 repaired. \<open>Go_Value\<close> is the dynamic type \<open>any\<close> of a dict's values, and \<open>Go_Json_Value\<close>
  marshals and unmarshals it and struct fields.

  \<^bold>\<open>Notes.\<close> \<open>Note\<close> has the records of \<open>internal/note/note.go\<close>; \<open>Note_Wire\<close> is \<open>wire.go\<close> with the struct tags: frames
  over byte lists, the writer's operations and the reader. \<open>Note_Wire_Properties\<close>: frames form a prefix code (the
  locale \<open>prefix_code\<close>, interpreted on \<open>WriteFrame\<close> and \<open>ReadFrame\<close>), so streams of notes read back; a handler's note
  is read back as it was; nothing but a frame is accepted, and no buffer larger than the limit is ever made
  (\<open>read_frame\<close> records the buffers and the reads); what a cut stream reads as.

  \<^bold>\<open>Worker and pool.\<close> \<open>Worker\<close> has the data of \<open>internal/worker/worker.go\<close> and one definition per locked region.
  \<open>Machine\<close> states what an invariant of a step relation is; \<open>Worker_Machine\<close> is the step relation of one worker:
  supervisor, process writers, timeout callbacks, one \<open>Dispatch\<close> and the shutdown thread interleave at their critical
  sections, channel operations and callbacks, and the handler process is the environment. \<open>Worker_Exec\<close> is an
  executable copy, one event per step, proved equivalent; \<open>Worker_Example\<close> has its example runs. \<open>Worker_Invariant\<close> and
  \<open>Worker_History\<close> prove the invariants on the state and on the recorded history, \<open>Worker_Properties\<close> what they
  mean: messages are conserved, settled at most once and for the right cause (an ack or an error nack after the done
  note that asks for it, a requeue of what was not picked up or not sent), delivered in order, bounded by the capacity; a stopped worker has settled all. The theorems about message ids assume fewer than 2^64 messages per
  worker, after which the 64-bit ids wrap around. \<open>Worker_Stream\<close> puts the byte streams underneath: a handler
  reads on stdin the init note and then each note written, one for one, and that the read loop ends on every stream (it is a partial function, so this is a theorem).
  \<open>Worker_Spawn\<close> takes \<open>spawn\<close> apart, which is one step of \<open>Worker_Machine\<close>, into its calls on \<open>os/exec\<close>: a failure
  leaves no process and no pipe behind.
  \<open>Pool\<close>, \<open>Pool_Exec\<close> and \<open>Pool_Properties\<close> do the same for \<open>pool.go\<close>: the workers side by side, the scan for the least loaded
  one with each count read at its own time, and \<open>Shutdown\<close>; also that \<open>Dispatch\<close> can wait on a worker without a
  process while every other worker is idle, in every pool.

  \<^bold>\<open>Bus and codec.\<close> \<open>Codec\<close> is \<open>internal/codec\<close> over the record \<open>codec_lib\<close> of the protobuf library's functions; what \<open>New\<close>
  returns, those functions bound to a registry and the options, is the record \<open>protolib\<close>. \<open>Control\<close> is
  the envelope, the routing keys and the id generator of \<open>internal/bus/control.go\<close>; \<open>Bus\<close> is \<open>bus.go\<close>, where every
  call on the AMQP client is a \<open>request\<close> and a function \<open>answer\<close> gives its error. \<open>Bus_Properties\<close>: the envelope and a
  whole published message arrive as they were sent, under two documented laws of the library (\<open>wire_faithful\<close>, and
  \<open>control_schema\<close> for the envelope's message type, both shown to hold of a concrete library \<open>ex_lib\<close>); ids are version
  4 UUIDs; deliveries are met in order; set-up makes its requests up to the first that fails and returns that one's
  error; clean-up. \<open>Data_Typing\<close>: decoded data is JSON and marshals again.

  \<^bold>\<open>Configuration and engine.\<close> \<open>Admission\<close> is \<open>internal/engine/admit.go\<close>, \<open>Settings\<close>, \<open>Manifest\<close> and \<open>Config\<close> the packages
  of those names (the protobuf and YAML decoders are parameters, files a function from paths), \<open>Engine\<close> is \<open>config.go\<close>
  and \<open>engine.go\<close>, where \<open>Run\<close> is the sequence of calls it makes with its deferred calls, \<open>Goxo_Main\<close> is \<open>main.go\<close>, and
  \<open>Health\<close> the endpoint and \<open>Healthcheck\<close> the probe of \<open>cmd/healthcheck\<close>. \<open>Engine_Properties\<close>: resources are released in reverse
  order on every path, each delivery is treated as decoding and admission decide, arguments are merged by name, the
  prefetch window is the pool's capacity. \<open>Goxo_Main\<close>: parameters come from the environment, the file, the default,
  in this order. \<open>Settings_Properties\<close>: under the schema of the embedded descriptor set (\<open>embedded_schema\<close>) no field
  read panics and every field of the settings is the message's.

  \<^bold>\<open>The running engine.\<close> \<open>Engine_Machine\<close> puts the consumer goroutine (\<open>Consume\<close>, \<open>dispatch\<close>, \<open>handle\<close>) beside the pool
  machine, up to the deferred \<open>Shutdown\<close>; the broker may deliver at any time, under a new tag each, and the run may be
  cancelled at any time. Its invariant couples the two: one \<open>Dispatch\<close> at a time, the shutdown after \<open>Consume\<close>, one
  context, and what the consumer dispatched is what the workers were handed. \<open>Engine_Exec\<close> is the executable copy with
  an example run. \<open>Engine_System\<close>: a delivery is always in one place, is settled at most once and never when refused, and
  the engine implements the broker's view of it (\<open>bstep\<close>). The drain of a cancelled run is in two halves, over the
  locales \<open>descent\<close> and \<open>winds_down\<close> of \<open>Descent\<close> and for quiet steps, in which the broker delivers nothing, the
  handlers send nothing and may exit. \<open>Pool_Liveness\<close> and \<open>Engine_Liveness\<close>: no state before the drained one is
  stuck. \<open>Engine_Drain\<close>: every step that changes the state lowers a lexicographic rank, so every quiet schedule is
  finite, and one that goes on while it can ends with \<open>Consume\<close> and \<open>Shutdown\<close> returned and every delivery settled or
  refused. That handlers exit is needed: \<open>Shutdown\<close> has no bound of its own when it misses a process.
  \<open>Engine_Emits\<close>: what is published carries the chain of a delivery that was admitted. The theorems assume
  \<open>few_given\<close>, fewer than 2^64 messages for each worker. This theory relates the machine to the script of \<open>Run\<close>.

  \<^bold>\<open>Bounds and fuel.\<close> Integers are words where they wrap (ids, \<open>uint32\<close> limits and prefixes) and otherwise \<open>int\<close> or
  \<open>nat\<close> with the wrap written out. \<open>read_frames\<close>, a reader of a whole stream used in statements, takes a fuel; one more
  than the length of the stream is enough, since a frame takes at least four bytes. The code itself needs no fuel.

  \<^bold>\<open>Not modelled.\<close> Log calls; the insides of the protobuf, YAML and AMQP libraries, of \<open>net/http\<close> and of OS processes and
  pipes, which are parameters or the environment; \<open>chMu\<close>, which only serialises requests; the embedding of the
  settings' descriptor set; real time, so that a timer that is set, a backoff and the grace window may end at any
  moment. A wait on the worker's condition variable is a step guarded by its condition, so the wake-ups
  (\<open>Broadcast\<close>) are taken as given: a missing one could not be stated here. A delivery's three callbacks are represented by its tag. Within one \<open>Connect\<close> the AMQP client answers
  equal requests alike; only the bindings of a repeated input selector are equal.
\<close>

section \<open>From the broker to the pool and back\<close>

text \<open>The deliveries an effect settles and the ones it hands to the pool.\<close>

fun effect_settles :: "effect \<Rightarrow> nat list" where
  "effect_settles (Amqp r) = settled_by r"
| "effect_settles _ = []"

fun effect_dispatches :: "effect \<Rightarrow> delivery list" where
  "effect_dispatches (DispatchToPool d) = [d]"
| "effect_dispatches _ = []"

definition settles :: "effect list \<Rightarrow> nat list" where
  "settles effs = concat (map effect_settles effs)"

definition dispatches :: "effect list \<Rightarrow> delivery list" where
  "dispatches effs = concat (map effect_dispatches effs)"

definition quiet :: "effect list \<Rightarrow> bool" where
  "quiet effs \<longleftrightarrow> settles effs = [] \<and> dispatches effs = []"

lemma settles_append [simp]: "settles (xs @ ys) = settles xs @ settles ys" "dispatches (xs @ ys) = dispatches xs @ dispatches ys"
  by (simp_all add: settles_def dispatches_def)

lemma settles_Cons: "settles (x # xs) = effect_settles x @ settles xs" "dispatches (x # xs) = effect_dispatches x @ dispatches xs"
  by (simp_all add: settles_def dispatches_def)

lemma settles_Nil [simp]: "settles [] = []" "dispatches [] = []"
  by (simp_all add: settles_def dispatches_def)

lemma settles_perform:
  "quiet effs \<Longrightarrow> settles (fst (perform effs r)) = settles (fst r)"
  "quiet effs \<Longrightarrow> dispatches (fst (perform effs r)) = dispatches (fst r)"
  by (simp_all add: perform_def quiet_def)

lemma settles_deferring:
  "quiet effs \<Longrightarrow> settles (fst (deferring effs r)) = settles (fst r)"
  "quiet effs \<Longrightarrow> dispatches (fst (deferring effs r)) = dispatches (fst r)"
  by (simp_all add: deferring_def quiet_def split: status.split)

lemmas script_settles = settles_perform settles_deferring

lemma quiet_simps [simp]:
  "quiet [Listen a]" "quiet [CloseHealth]" "quiet [NotifySignals]" "quiet [StopNotify]" "quiet [StartPool c n k]" "quiet [DrainPool g]"
  by (simp_all add: quiet_def settles_def dispatches_def)

lemma quiet_requests: "quiet (map Amqp rs) \<longleftrightarrow> list_all (\<lambda>r. settled_by r = []) rs"
  by (auto simp: quiet_def settles_def dispatches_def list_all_iff)

lemma quiet_close [simp]: "quiet (map Amqp (fst (close_bus answer)))"
  unfolding quiet_requests by (simp add: close_bus_def)

lemma quiet_setup: "list_all (\<lambda>r. settled_by r = []) (fst (setup_bus answer cfg))"
proof -
  obtain zs where "map fst (setup_requests cfg) = fst (setup_bus answer cfg) @ zs"
    using run_requests_prefix [of answer "setup_requests cfg"] by (auto simp: setup_bus_def prefix_def)
  moreover have "list_all (\<lambda>r. settled_by r = []) (map fst (setup_requests cfg))"
    by (simp add: setup_requests_def list_all_iff Let_def)
  ultimately show ?thesis
    by (metis list_all_append)
qed

lemma quiet_connect: "quiet (map Amqp (fst (connect answer cfg)))"
  using quiet_setup [of answer cfg] by (auto simp: quiet_requests connect_def close_bus_def split: prod.split)

lemma effect_once:
  "mset (effect_settles (effect_of e (dispatch c d))) + mset (map d_tag (effect_dispatches (effect_of e (dispatch c d)))) = {#ad_tag d#}"
  by (auto simp: effect_of_def dispatch_def handle_def ack_request_def nack_request_def Let_def split: sum.split prod.split)

lemma loop_once:
  "mset (settles (map (\<lambda>d. effect_of e (dispatch c d)) ds)) + mset (map d_tag (dispatches (map (\<lambda>d. effect_of e (dispatch c d)) ds))) =
    mset (map ad_tag ds)"
proof (induction ds)
  case (Cons d ds)
  let ?e = "effect_of e (dispatch c d)" and ?es = "map (\<lambda>d. effect_of e (dispatch c d)) ds"
  have "mset (settles (?e # ?es)) + mset (map d_tag (dispatches (?e # ?es))) =
      (mset (effect_settles ?e) + mset (map d_tag (effect_dispatches ?e))) + (mset (settles ?es) + mset (map d_tag (dispatches ?es)))"
    by (simp add: settles_def dispatches_def ac_simps)
  also have "\<dots> = mset (map ad_tag (d # ds))"
    unfolding effect_once Cons.IH by simp
  finally show ?case
    by (simp only: list.map)
qed (simp add: settles_def dispatches_def)

lemma consuming_once:
  "mset (settles (fst (run_consuming w m s p cdc))) + mset (map d_tag (dispatches (fst (run_consuming w m s p cdc)))) \<subseteq>#
    mset (map ad_tag (before_stop (wd_events w)))"
proof (cases "inSelectors s m = []")
  case False
  define outs where "outs = fst (Consume (wd_answer w) (busConfig m s p) cdc (wd_events w))"
  have run: "fst (run_consuming w m s p cdc) = Amqp (consume_request (busConfig m s p)) # map (effect_of (engine_of m s)) outs"
    using False by (simp add: run_consuming_def outs_def split: prod.split)
  have "outs = [] \<or> outs = map (dispatch cdc) (before_stop (wd_events w))"
    by (auto simp: outs_def Consume_def consume_loop_outs)
  then show ?thesis
    using loop_once [of "engine_of m s" cdc "before_stop (wd_events w)"]
    by (auto simp: run settles_Cons consume_request_def comp_def)
qed (simp add: run_consuming_def)

lemma run_once:
  "mset (settles (fst (Run w m s p))) + mset (map d_tag (dispatches (fst (Run w m s p)))) \<subseteq>#
    mset (map ad_tag (before_stop (wd_events w)))"
proof -
  have conn: "quiet (map Amqp reqs)" if "connect (wd_answer w) (busConfig m s p) = (reqs, err)" for reqs err
    using quiet_connect [of "wd_answer w" "busConfig m s p"] that by simp
  show ?thesis
    using consuming_once [of w m s p]
    by (auto simp: Run_def run_served_def script_settles conn split: sum.split prod.split option.split)
qed

text \<open>No delivery of the broker is settled twice. Over a whole run, the requests of the consumer (a nack for what
  does not decode, an ack for what admission rejects) and those of the pool's workers (an ack, a nack or a requeue)
  together name each delivery at most once, and only deliveries that arrived, provided the broker numbers its
  deliveries apart and the pool is handed what the engine dispatches.\<close>

lemma delivery_settled_once:
  assumes "distinct (map ad_tag (before_stop (wd_events w)))"
    and "pool_reachable wcfg (pr_pool_size p) (pr_worker_cap p) ps" "\<forall>s \<in> set (ps_ws ps). length (s_given s) < 2 ^ 64"
    and "mset (concat (map (\<lambda>s. map snd (s_given s)) (ps_ws ps))) \<subseteq># mset (dispatches (fst (Run w m s p)))"
  shows "distinct (settles (fst (Run w m s p)) @ concat (map settled_by (pool_requests ps))) \<and>
    set (settles (fst (Run w m s p)) @ concat (map settled_by (pool_requests ps))) \<subseteq> ad_tag ` set (before_stop (wd_events w))"
proof -
  let ?effs = "fst (Run w m s p)"
  have given: "concat (map given_tags xs) = map d_tag (concat (map (\<lambda>s. map snd (s_given s)) xs))" for xs
    by (induction xs) simp_all
  have "mset (concat (map settled_tags (ps_ws ps))) \<subseteq># mset (concat (map given_tags (ps_ws ps)))"
    by (rule pool_settled_submset [OF assms(2,3)])
  also have "\<dots> \<subseteq># mset (map d_tag (dispatches ?effs))"
    unfolding given mset_map by (rule image_mset_subseteq_mono [OF assms(4)])
  finally have "mset (settles ?effs) + mset (concat (map settled_tags (ps_ws ps))) \<subseteq>#
      mset (settles ?effs) + mset (map d_tag (dispatches ?effs))"
    by (rule subset_mset.add_left_mono)
  also have "\<dots> \<subseteq># mset (map ad_tag (before_stop (wd_events w)))"
    by (rule run_once)
  finally have sub: "mset (settles ?effs @ concat (map settled_by (pool_requests ps))) \<subseteq>#
      mset (map ad_tag (before_stop (wd_events w)))"
    by (simp add: pool_requests_tags)
  show ?thesis
    using distinct_submset [OF assms(1) sub] set_mset_mono [OF sub] by (simp only: set_mset_mset set_map simp_thms)
qed

text \<open>An example: two messages arrive, each is dispatched to its worker, and the pool is shut down.\<close>

lemma ex_run_dispatches: "dispatches (fst (Run (ex_world ex_events) ex_manifest ex_settings ex_params)) = [ex_msg 7, ex_msg 8]"
proof -
  obtain cdc pre post where run: "loadCodec (wd_files (ex_world ex_events)) (wd_codec (ex_world ex_events)) (pr_fdset_path ex_params) = Inr cdc"
    "fst (Run (ex_world ex_events) ex_manifest ex_settings ex_params) =
      pre @ StartPool ex_cfg 2 1 # fst (run_consuming (ex_world ex_events) ex_manifest ex_settings ex_params cdc) @ post"
    using run_consumed [OF ex_starts [of ex_events]] by metis
  have cdc: "cdc = ex_lib"
    using run(1) by (simp add: loadCodec_def ex_world_def ex_codec)
  have "fst (run_consuming (ex_world ex_events) ex_manifest ex_settings ex_params ex_lib) =
      Amqp (consume_request (busConfig ex_manifest ex_settings ex_params)) # [DispatchToPool (ex_msg 7), DispatchToPool (ex_msg 8)]"
    by (simp add: run_consuming_def Consume_def ex_world_def ex_events_def ex_arrival_dispatched inSelectors_def
        ex_settings_def [THEN arg_cong, of st_in_selectors] ex_manifest_def [THEN arg_cong, of mf_in_selectors])
  then have sub: "[ex_msg 7, ex_msg 8] = dispatches (fst (run_consuming (ex_world ex_events) ex_manifest ex_settings ex_params cdc))"
    by (simp add: cdc dispatches_def)
  have "mset (map d_tag (dispatches (fst (Run (ex_world ex_events) ex_manifest ex_settings ex_params)))) \<subseteq># {#7, 8#}"
    using subset_mset.order_trans [OF mset_subset_eq_add_right run_once [of "ex_world ex_events" ex_manifest ex_settings ex_params]]
    by (simp add: ex_world_def ex_events_def ex_arrival_def)
  then have "length (dispatches (fst (Run (ex_world ex_events) ex_manifest ex_settings ex_params))) \<le> 2"
    using size_mset_mono by fastforce
  then have "dispatches pre = []" "dispatches post = []"
    unfolding run(2) by (simp_all add: settles_Cons flip: sub)
  then show ?thesis
    unfolding run(2) by (simp add: settles_Cons flip: sub)
qed

text \<open>What the machine of the running engine records is what \<open>Run\<close> does between its subscription and its deferred calls.\<close>

lemma consuming_is_treated:
  assumes "inSelectors st m \<noteq> []" "wd_answer w (consume_request (busConfig m st p)) = None"
    and "es_arrived s = before_stop (wd_events w)"
  shows "fst (run_consuming w m st p c) = Amqp (consume_request (busConfig m st p)) # treated c (engine_of m st) s"
  using assms consume_loop_outs [of c "wd_events w"]
  by (auto simp: run_consuming_def Consume_def treated_def split: prod.split)

end
